theory Spec2Isabelle
  imports Main "HOL-Library.Word" "HOL-Library.Multiset"
begin

section \<open>Data model of the round-robin OFDMA manager\<close>

text \<open>
  The embedding follows \<^verbatim>\<open>src/rr-ofdma-manager.cc\<close>. Enumerations are datatypes, the
  per-station info is a record, and every abort, failed assertion, \<^verbatim>\<open>std::out_of_range\<close>
  and read through an iterator that stands at the end of its container is a value of
  type \<open>error\<close>.
\<close>

datatype RuType =
  RU_26_TONE | RU_52_TONE | RU_106_TONE | RU_242_TONE | RU_484_TONE | RU_996_TONE
  | RU_2x996_TONE

datatype OfdmaTxFormat = NON_OFDMA | DL_OFDMA | UL_OFDMA

datatype error =
    AssertFailed   \<comment> \<open>an \<^verbatim>\<open>NS_ASSERT\<close> does not hold\<close>
  | Aborted        \<comment> \<open>\<^verbatim>\<open>NS_ABORT_MSG_IF\<close> or \<^verbatim>\<open>NS_FATAL_ERROR\<close>\<close>
  | OutOfRange     \<comment> \<open>\<^verbatim>\<open>std::map::at\<close> on a key the map does not hold\<close>
  | PastTheEnd     \<comment> \<open>an iterator is read although it stands at \<^verbatim>\<open>end ()\<close>\<close>

type_synonym Mac48Address = nat

record DlPerStaInfo =
  aid :: nat
  tid :: nat

text \<open>An RU allocation entry \<^verbatim>\<open>std::pair<HeRu::RuType,size_t>\<close>: the RU type and the RU index.\<close>

type_synonym RuAlloc = "RuType \<times> nat"

text \<open>\<^verbatim>\<open>HeRu::RuSpec\<close>: the flag of the primary 80 MHz half, the RU type and the RU index.\<close>

record RuSpec =
  primary80MHz :: bool
  ruType :: RuType
  index :: nat

text \<open>
  An element of \<^verbatim>\<open>m_dataInfo\<close>: the station address, the size of the pending frame
  (\<^verbatim>\<open>uint32_t\<close>; the code only compares it) and the per-station info.
\<close>

type_synonym candidate = "Mac48Address \<times> nat \<times> DlPerStaInfo"

definition psize :: "candidate \<Rightarrow> nat" where
  "psize c = fst (snd c)"

section \<open>Buffer status reports (uplink path of \<^verbatim>\<open>SelectTxFormat\<close>)\<close>

text \<open>
  The loop of lines 192--219 over the user infos of the previous transmit vector, given
  by the station identifiers in the order of the map. \<open>staList\<close> is the table of
  associated stations (\<^verbatim>\<open>m_apMac->GetStaList ()\<close>), \<open>status\<close> is
  \<^verbatim>\<open>m_apMac->GetMaxBufferStatus\<close>. The \<^verbatim>\<open>break\<close> of the code is the branch that
  does not recur.
\<close>

fun maxBufferScan ::
  "(nat \<times> Mac48Address) list \<Rightarrow> (Mac48Address \<Rightarrow> 8 word) \<Rightarrow> 32 word \<Rightarrow> nat list \<Rightarrow> 32 word
     \<Rightarrow> 32 word" where
  "maxBufferScan staList status ulPsduSize [] maxBufferSize = maxBufferSize"
| "maxBufferScan staList status ulPsduSize (userInfo # rest) maxBufferSize =
     (case map_of staList userInfo of
        Some address \<Rightarrow>
          (let queueSize = status address in
           if queueSize = 255
             then maxBufferScan staList status ulPsduSize rest (max maxBufferSize ulPsduSize)
           else if queueSize = 254
             then 0xffffffff
           else maxBufferScan staList status ulPsduSize rest
                  (max maxBufferSize (ucast queueSize * 256)))
      | None \<Rightarrow> maxBufferScan staList status ulPsduSize rest maxBufferSize)"

text \<open>The number of bytes one report stands for when it is not the code 254.\<close>

definition reportBytes :: "32 word \<Rightarrow> 8 word \<Rightarrow> 32 word" where
  "reportBytes ulPsduSize queueSize =
     (if queueSize = 255 then ulPsduSize else ucast queueSize * 256)"

text \<open>The reports of the stations that are still associated, in the order of the scan.\<close>

definition reportsOf ::
  "(nat \<times> Mac48Address) list \<Rightarrow> (Mac48Address \<Rightarrow> 8 word) \<Rightarrow> nat list \<Rightarrow> 8 word list" where
  "reportsOf staList status userInfos = map status (List.map_filter (map_of staList) userInfos)"


section \<open>The merge sort of the candidates\<close>

text \<open>
  \<^verbatim>\<open>merge\<close> and \<^verbatim>\<open>merge_sort\<close> (lines 460--514) work in place on the vector \<open>v\<close>
  between the indices \<open>p\<close> and \<open>r\<close>, which are \<^verbatim>\<open>int\<close>s in the code (the call on an
  empty class passes \<open>r = -1\<close>). The model returns the updated vector. The three loops of
  \<^verbatim>\<open>merge\<close> are \<open>merge_loop\<close> (both halves not exhausted) and \<open>copy_rest\<close> (once for
  \<open>L\<close>, once for \<open>R\<close>); the counters \<open>i\<close> and \<open>j\<close> start at 0 and only grow, so they are
  naturals. \<^verbatim>\<open>merge_sort\<close> is called with \<open>p = 0\<close> and recurs on \<open>p\<close> and \<open>q + 1\<close>, so
  \<open>p + r\<close> is never negative where it is halved, and C's truncating division is \<open>div\<close>
  there; all the indices \<^verbatim>\<open>merge\<close> reads and writes are then within the vector.
\<close>

function merge_loop ::
  "candidate list \<Rightarrow> candidate list \<Rightarrow> candidate list \<Rightarrow> int \<Rightarrow> nat \<Rightarrow> nat \<Rightarrow> int
     \<Rightarrow> candidate list \<times> nat \<times> nat \<times> int" where
  "merge_loop L R v r i j k =
     (if k \<le> r \<and> i < length L \<and> j < length R then
        (if psize (L ! i) \<ge> psize (R ! j)
           then merge_loop L R (v[nat k := L ! i]) r (i + 1) j (k + 1)
           else merge_loop L R (v[nat k := R ! j]) r i (j + 1) (k + 1))
      else (v, i, j, k))"
  by pat_completeness auto
termination
  by (relation "measure (\<lambda>(L, R, v, r, i, j, k). (length L - i) + (length R - j))") auto

function copy_rest ::
  "candidate list \<Rightarrow> candidate list \<Rightarrow> nat \<Rightarrow> int \<Rightarrow> candidate list \<times> int" where
  "copy_rest L v i k =
     (if i < length L then copy_rest L (v[nat k := L ! i]) (i + 1) (k + 1) else (v, k))"
  by pat_completeness auto
termination
  by (relation "measure (\<lambda>(L, v, i, k). length L - i)") auto

definition merge :: "candidate list \<Rightarrow> int \<Rightarrow> int \<Rightarrow> int \<Rightarrow> candidate list" where
  "merge v p q r =
     (let size1 = q - p + 1;
          size2 = r - q;
          L = map (\<lambda>i. v ! nat (p + int i)) [0..<nat size1];
          R = map (\<lambda>j. v ! nat (q + int j + 1)) [0..<nat size2];
          (v1, i, j, k) = merge_loop L R v r 0 0 p;
          (v2, k2) = copy_rest L v1 i k;
          (v3, k3) = copy_rest R v2 j k2
      in v3)"

function merge_sort :: "candidate list \<Rightarrow> int \<Rightarrow> int \<Rightarrow> candidate list" where
  "merge_sort v p r =
     (if p < r then
        (let q = (p + r) div 2;
             v1 = merge_sort v p q;
             v2 = merge_sort v1 (q + 1) r
         in merge v2 p q r)
      else v)"
  by pat_completeness auto
termination
  by (relation "measure (\<lambda>(v, p, r). nat (r - p))") auto

declare merge_loop.simps [simp del] copy_rest.simps [simp del] merge_sort.simps [simp del]


text \<open>The sort of one class as \<^verbatim>\<open>GetNumberAndTypeOfRus\<close> calls it (lines 614--619).\<close>

definition sort_class :: "candidate list \<Rightarrow> candidate list" where
  "sort_class xs = merge_sort xs 0 (int (length xs) - 1)"

subsection \<open>Notions used to state that the sort is right\<close>

text \<open>The merge of two lists, which the in-place loops are proved to compute.\<close>

fun lmerge :: "candidate list \<Rightarrow> candidate list \<Rightarrow> candidate list" where
  "lmerge (x # xs) (y # ys) =
     (if psize x \<ge> psize y then x # lmerge xs (y # ys) else y # lmerge (x # xs) ys)"
| "lmerge xs [] = xs"
| "lmerge [] ys = ys"


text \<open>Descending order of the pending-frame size.\<close>

definition desc :: "candidate list \<Rightarrow> bool" where
  "desc xs = sorted_wrt (\<lambda>x y. psize x \<ge> psize y) xs"

text \<open>
  \<open>S\<close> is a stable descending sort of \<open>T\<close>: it is in descending order, has the same
  elements with the same multiplicities, and the elements of each size keep the order
  they have in \<open>T\<close>.
\<close>

definition stable_sorted :: "candidate list \<Rightarrow> candidate list \<Rightarrow> bool" where
  "stable_sorted S T \<longleftrightarrow>
     desc S \<and> mset S = mset T \<and> (\<forall>k. filter (\<lambda>c. psize c = k) S = filter (\<lambda>c. psize c = k) T)"


text \<open>What the two copy loops make of the state the first loop of \<^verbatim>\<open>merge\<close> leaves.\<close>

definition finish ::
  "candidate list \<Rightarrow> candidate list \<Rightarrow> candidate list \<times> nat \<times> nat \<times> int \<Rightarrow> candidate list" where
  "finish L R s =
     (case s of (v1, i, j, k) \<Rightarrow>
        (case copy_rest L v1 i k of (v2, k2) \<Rightarrow>
           (case copy_rest R v2 j k2 of (v3, k3) \<Rightarrow> v3)))"


text \<open>The \<open>n\<close> elements of \<open>v\<close> from the index \<open>p\<close> on.\<close>

definition seg :: "candidate list \<Rightarrow> nat \<Rightarrow> nat \<Rightarrow> candidate list" where
  "seg v p n = take n (drop p v)"

section \<open>\<^verbatim>\<open>GetNumberAndTypeOfRus\<close>\<close>

subsection \<open>Tables declared outside this source file\<close>

text \<open>
  \<^verbatim>\<open>HeRu::m_heRuSubcarrierGroups\<close> is a \<^verbatim>\<open>std::map\<close> from (bandwidth, RU type) to the
  vector of the subcarrier groups of that RU type; the code reads the keys and the size
  of each vector only. It is not part of this source file, so the functions below take
  it as a parameter: the list of its entries in the order in which the map is iterated,
  each with the size of its vector. \<^verbatim>\<open>at\<close> is \<open>map_of\<close>.
\<close>

type_synonym SubcarrierGroups = "((nat \<times> RuType) \<times> nat) list"

text \<open>
  The instance of that table used for concrete evaluations: the RU counts of IEEE
  802.11ax for 20, 40 and 80 MHz, in the order of the keys (bandwidth, then RU type in
  the order of the enumeration). The table holds no entry for 160 MHz, which is why
  line 632 doubles the 80 MHz entries.
\<close>

definition heRuSubcarrierGroups :: SubcarrierGroups where
  "heRuSubcarrierGroups =
     [((20, RU_26_TONE), 9), ((20, RU_52_TONE), 4), ((20, RU_106_TONE), 2),
      ((20, RU_242_TONE), 1),
      ((40, RU_26_TONE), 18), ((40, RU_52_TONE), 8), ((40, RU_106_TONE), 4),
      ((40, RU_242_TONE), 2), ((40, RU_484_TONE), 1),
      ((80, RU_26_TONE), 37), ((80, RU_52_TONE), 16), ((80, RU_106_TONE), 8),
      ((80, RU_242_TONE), 4), ((80, RU_484_TONE), 2), ((80, RU_996_TONE), 1)]"

text \<open>The number of tones of an RU type, by which one RU type is wider than another.\<close>

fun ruTones :: "RuType \<Rightarrow> nat" where
  "ruTones RU_26_TONE = 26"
| "ruTones RU_52_TONE = 52"
| "ruTones RU_106_TONE = 106"
| "ruTones RU_242_TONE = 242"
| "ruTones RU_484_TONE = 484"
| "ruTones RU_996_TONE = 996"
| "ruTones RU_2x996_TONE = 1992"

text \<open>
  Modelled from the spec: the map \<^verbatim>\<open>table\<close> from names to RU types (lines 730--732) is
  declared outside this source file; the spec calls the three units the 106-tone, the
  52-tone and the 26-tone unit.
\<close>

definition table :: "(string \<times> RuType) list" where
  "table = [(''RU_106_TONE'', RU_106_TONE), (''RU_52_TONE'', RU_52_TONE),
            (''RU_26_TONE'', RU_26_TONE)]"

definition type1 :: RuType where "type1 = the (map_of table ''RU_106_TONE'')"
definition type2 :: RuType where "type2 = the (map_of table ''RU_52_TONE'')"
definition type3 :: RuType where "type3 = the (map_of table ''RU_26_TONE'')"

text \<open>
  The address lists \<^verbatim>\<open>bulksend1\<close>, \<^verbatim>\<open>onoff1\<close> and \<^verbatim>\<open>http1\<close> of the three traffic
  classes are declared outside this source file as well and are parameters, together
  with the table of the RUs.
\<close>

record tables =
  groups :: SubcarrierGroups
  bulksend1 :: "Mac48Address list"
  onoff1 :: "Mac48Address list"
  http1 :: "Mac48Address list"

subsection \<open>Classification (lines 571--613)\<close>

text \<open>
  Every element of \<^verbatim>\<open>m_dataInfo\<close> is looked up in \<^verbatim>\<open>bulksend1\<close>, then in \<^verbatim>\<open>onoff1\<close>,
  then in \<^verbatim>\<open>http1\<close>, and appended to the vector of the first list that holds its
  address; an element in none of them is in no vector. The result is
  (\<^verbatim>\<open>onoff\<close>, \<^verbatim>\<open>bulksend\<close>, \<^verbatim>\<open>http\<close>).
\<close>

fun classify ::
  "tables \<Rightarrow> candidate list \<Rightarrow> candidate list \<times> candidate list \<times> candidate list" where
  "classify T [] = ([], [], [])"
| "classify T (c # cs) =
     (case classify T cs of (onoff, bulksend, http) \<Rightarrow>
        if fst c \<in> set (bulksend1 T) then (onoff, c # bulksend, http)
        else if fst c \<in> set (onoff1 T) then (c # onoff, bulksend, http)
        else if fst c \<in> set (http1 T) then (onoff, bulksend, c # http)
        else (onoff, bulksend, http))"

subsection \<open>Uniform RU types (lines 620--696)\<close>

text \<open>Sequencing of steps that may fail.\<close>

definition bindE :: "error + 'a \<Rightarrow> ('a \<Rightarrow> error + 'b) \<Rightarrow> error + 'b" where
  "bindE m f = (case m of Inl e \<Rightarrow> Inl e | Inr x \<Rightarrow> f x)"

text \<open>
  The loop of lines 624--638 over the table: the result is the RU type and the value of
  the \<^verbatim>\<open>uint8_t nRusAssigned\<close> at the \<^verbatim>\<open>break\<close>, or \<open>None\<close> when the loop ends
  without one.
\<close>

fun selectRu :: "SubcarrierGroups \<Rightarrow> nat \<Rightarrow> nat \<Rightarrow> (RuType \<times> nat) option" where
  "selectRu [] bandwidth nStations = None"
| "selectRu (ru # rest) bandwidth nStations =
     (if fst (fst ru) = bandwidth \<and> snd ru \<le> nStations
        then Some (snd (fst ru), snd ru mod 256)
      else if bandwidth = 160 \<and> fst (fst ru) = 80 \<and> 2 * snd ru \<le> nStations
        then Some (snd (fst ru), (2 * snd ru) mod 256)
      else selectRu rest bandwidth nStations)"

text \<open>
  Lines 639--644: with \<^verbatim>\<open>nRusAssigned == 0\<close> the assertion must hold and the RU type is
  the one that covers the 160 MHz channel.
\<close>

definition degenerateRuType :: "SubcarrierGroups \<Rightarrow> nat \<Rightarrow> nat \<Rightarrow> error + RuType" where
  "degenerateRuType G bandwidth nStations =
     (let fallback = (if bandwidth = 160 \<and> nStations = 1 then Inr RU_2x996_TONE
                      else Inl AssertFailed)
      in case selectRu G bandwidth nStations of
           None \<Rightarrow> fallback
         | Some (t, nRusAssigned) \<Rightarrow> if nRusAssigned = 0 then fallback else Inr t)"

text \<open>
  The loops of lines 652--655 and 689--692: one entry for each index from 1 to the size
  of the vector that \<^verbatim>\<open>at ({bandwidth, ruType})\<close> returns; \<^verbatim>\<open>at\<close> throws when the table
  has no such key.
\<close>

definition uniformEntries :: "SubcarrierGroups \<Rightarrow> nat \<Rightarrow> RuType \<Rightarrow> error + RuAlloc list" where
  "uniformEntries G bandwidth t =
     (case map_of G (bandwidth, t) of
        None \<Rightarrow> Inl OutOfRange
      | Some n \<Rightarrow> Inr (map (\<lambda>ruIndex. (t, ruIndex)) [1..<Suc n]))"

text \<open>
  A loop \<^verbatim>\<open>for (i = 0; i < n; i++) { push_back (*it); it++; }\<close> over the elements
  that follow an iterator: it reads past the end when fewer than \<open>n\<close> elements follow.
\<close>

definition readN :: "int \<Rightarrow> 'a list \<Rightarrow> error + 'a list" where
  "readN n xs = (if nat n \<le> length xs then Inr (take (nat n) xs) else Inl PastTheEnd)"

subsection \<open>The packing of the mixed case (lines 699--821)\<close>

text \<open>The loops of lines 705--717 on the budget \<open>a\<close> of tones.\<close>

function reserve52 :: "int \<Rightarrow> int \<Rightarrow> int \<Rightarrow> int \<times> int \<times> int" where
  "reserve52 a allocated52 size3 =
     (if a \<ge> 52 \<and> size3 > 0 then reserve52 (a - 52) (allocated52 + 1) (size3 - 1)
      else (a, allocated52, size3))"
  by pat_completeness auto
termination
  by (relation "measure (\<lambda>(a, allocated52, size3). nat size3)") auto

function reserve26 :: "int \<Rightarrow> int \<Rightarrow> int \<Rightarrow> int \<times> int \<times> int" where
  "reserve26 a allocated26 size4 =
     (if a \<ge> 26 \<and> size4 > 0 then reserve26 (a - 26) (allocated26 + 1) (size4 - 1)
      else (a, allocated26, size4))"
  by pat_completeness auto
termination
  by (relation "measure (\<lambda>(a, allocated26, size4). nat size4)") auto

declare reserve52.simps [simp del] reserve26.simps [simp del]

text \<open>
  Lines 699--717: the result is the budget left and the numbers
  \<^verbatim>\<open>allocated106\<close>, \<^verbatim>\<open>allocated52\<close>, \<^verbatim>\<open>allocated26\<close>.
\<close>

definition reserve :: "int \<Rightarrow> int \<Rightarrow> int \<Rightarrow> int \<times> int \<times> int \<times> int" where
  "reserve size2 size3 size4 =
     (let allocated26 = size2;
          a = 242 - 26 * size2;
          (allocated106, a1, size3a) =
             (if a \<ge> 106 \<and> size3 > 0 then (1, a - 106, size3 - 1) else (0, a, size3));
          (a2, allocated52, size3b) = reserve52 a1 0 size3a;
          (a3, allocated26a, size4a) = reserve26 a2 allocated26 size4
      in (a3, allocated106, allocated52, allocated26a))"

text \<open>
  The variables of lines 721--816. Each iterator is the list of the elements from its
  position to the end of its vector; reading it when the list is empty is a read past
  the end.
\<close>

record packing =
  allocated106 :: int
  allocated52 :: int
  allocated26 :: int
  size2 :: int
  size3 :: int
  size4 :: int
  staInfoIt1 :: "candidate list"
  staInfoIt2 :: "candidate list"
  staInfoIt3 :: "candidate list"
  dataInfo :: "candidate list"
  ruAssigned :: "RuAlloc list"

text \<open>One element of \<^verbatim>\<open>onoff\<close>, \<^verbatim>\<open>bulksend\<close> or \<^verbatim>\<open>http\<close> is moved to \<^verbatim>\<open>m_dataInfo\<close>.\<close>

definition take1 :: "packing \<Rightarrow> error + packing" where
  "take1 s = (case staInfoIt1 s of
                [] \<Rightarrow> Inl PastTheEnd
              | c # it \<Rightarrow> Inr (s\<lparr>dataInfo := dataInfo s @ [c], staInfoIt1 := it,
                                size2 := size2 s - 1\<rparr>))"

definition take2 :: "packing \<Rightarrow> error + packing" where
  "take2 s = (case staInfoIt2 s of
                [] \<Rightarrow> Inl PastTheEnd
              | c # it \<Rightarrow> Inr (s\<lparr>dataInfo := dataInfo s @ [c], staInfoIt2 := it,
                                size3 := size3 s - 1\<rparr>))"

definition take3 :: "packing \<Rightarrow> error + packing" where
  "take3 s = (case staInfoIt3 s of
                [] \<Rightarrow> Inl PastTheEnd
              | c # it \<Rightarrow> Inr (s\<lparr>dataInfo := dataInfo s @ [c], staInfoIt3 := it,
                                size4 := size4 s - 1\<rparr>))"

definition pushRu :: "RuAlloc \<Rightarrow> packing \<Rightarrow> packing" where
  "pushRu e s = s\<lparr>ruAssigned := ruAssigned s @ [e]\<rparr>"

text \<open>The loops of lines 745--761, with their counters \<^verbatim>\<open>u\<close> and \<^verbatim>\<open>in\<close>.\<close>

function fillOnoff :: "packing \<Rightarrow> int \<Rightarrow> nat \<Rightarrow> error + (packing \<times> int \<times> nat)" where
  "fillOnoff s u i =
     (if size2 s > 0 \<and> u > 0 then
        (case take1 s of
           Inl e \<Rightarrow> Inl e
         | Inr s' \<Rightarrow> fillOnoff (pushRu (type3, i) s') (u - 1) (i + 1))
      else Inr (s, u, i))"
  by pat_completeness auto
termination
  by (relation "measure (\<lambda>(s, u, i). nat u)") auto

function fillHttp :: "packing \<Rightarrow> int \<Rightarrow> nat \<Rightarrow> error + (packing \<times> int \<times> nat)" where
  "fillHttp s u i =
     (if size4 s > 0 \<and> u > 0 then
        (case take3 s of
           Inl e \<Rightarrow> Inl e
         | Inr s' \<Rightarrow> fillHttp (pushRu (type3, i) s') (u - 1) (i + 1))
      else Inr (s, u, i))"
  by pat_completeness auto
termination
  by (relation "measure (\<lambda>(s, u, i). nat u)") auto

declare fillOnoff.simps [simp del] fillHttp.simps [simp del]

text \<open>
  Lines 734--762, the assignment of the first member of \<^verbatim>\<open>bulksend\<close>: the 106-tone RU
  when one is reserved, else a 52-tone RU followed by at most two 26-tone RUs.
\<close>

definition firstMember :: "packing \<Rightarrow> error + packing" where
  "firstMember s =
     (if allocated106 s > 0 then
        bindE (take2 s) (\<lambda>s1. Inr (pushRu (type1, 1) s1))
      else
        bindE (take2 s) (\<lambda>s1.
        bindE (fillOnoff (pushRu (type2, 1) (s1\<lparr>allocated52 := allocated52 s1 - 1\<rparr>)) 2 3)
          (\<lambda>(s2, u, i).
        bindE (fillHttp s2 u i) (\<lambda>(s3, u', i'). Inr s3))))"

text \<open>
  Lines 763--780: with an odd \<^verbatim>\<open>allocated26\<close> one more member, of \<^verbatim>\<open>onoff\<close> if
  \<^verbatim>\<open>size2 > 0\<close> and of \<^verbatim>\<open>http\<close> otherwise, gets the 26-tone RU of index 5. For an
  \<^verbatim>\<open>int\<close>, \<^verbatim>\<open>allocated26 % 2 != 0\<close> says that it is odd, as \<open>mod\<close> does.
\<close>

definition parityFix :: "packing \<Rightarrow> error + packing" where
  "parityFix s =
     (if allocated26 s mod 2 \<noteq> 0 then
        bindE (if size2 s > 0 then take1 s else take3 s)
          (\<lambda>s1. Inr (pushRu (type3, 5) (s1\<lparr>allocated26 := allocated26 s1 - 1\<rparr>)))
      else Inr s)"

text \<open>The loops of lines 784--813, with their counters \<^verbatim>\<open>in1\<close> and \<^verbatim>\<open>in2\<close>.\<close>

function emit52 :: "packing \<Rightarrow> nat \<Rightarrow> error + packing" where
  "emit52 s in1 =
     (if allocated52 s > 0 then
        (case take2 s of
           Inl e \<Rightarrow> Inl e
         | Inr s' \<Rightarrow> emit52 (pushRu (type2, in1) (s'\<lparr>allocated52 := allocated52 s' - 1\<rparr>))
                       (in1 + 1))
      else Inr s)"
  by pat_completeness auto
termination
  by (relation "measure (\<lambda>(s, in1). nat (allocated52 s))")
     (auto simp: take2_def pushRu_def split: list.splits)

function emit26Onoff :: "packing \<Rightarrow> nat \<Rightarrow> error + (packing \<times> nat)" where
  "emit26Onoff s in2 =
     (if allocated26 s > 0 \<and> size2 s > 0 then
        (case take1 s of
           Inl e \<Rightarrow> Inl e
         | Inr s' \<Rightarrow> emit26Onoff (pushRu (type3, in2) (s'\<lparr>allocated26 := allocated26 s' - 1\<rparr>))
                       (in2 + 1))
      else Inr (s, in2))"
  by pat_completeness auto
termination
  by (relation "measure (\<lambda>(s, in2). nat (allocated26 s))")
     (auto simp: take1_def pushRu_def split: list.splits)

function emit26Http :: "packing \<Rightarrow> nat \<Rightarrow> error + (packing \<times> nat)" where
  "emit26Http s in2 =
     (if allocated26 s > 0 \<and> size4 s > 0 then
        (case take3 s of
           Inl e \<Rightarrow> Inl e
         | Inr s' \<Rightarrow> emit26Http (pushRu (type3, in2) (s'\<lparr>allocated26 := allocated26 s' - 1\<rparr>))
                       (in2 + 1))
      else Inr (s, in2))"
  by pat_completeness auto
termination
  by (relation "measure (\<lambda>(s, in2). nat (allocated26 s))")
     (auto simp: take3_def pushRu_def split: list.splits)

declare emit52.simps [simp del] emit26Onoff.simps [simp del] emit26Http.simps [simp del]

text \<open>Lines 814--816: the members that got no RU are appended to \<^verbatim>\<open>m_dataInfo\<close>.\<close>

definition leftover :: "packing \<Rightarrow> error + packing" where
  "leftover s =
     bindE (readN (size2 s) (staInfoIt1 s)) (\<lambda>r1.
     bindE (readN (size3 s) (staInfoIt2 s)) (\<lambda>r2.
     bindE (readN (size4 s) (staInfoIt3 s)) (\<lambda>r3.
       Inr (s\<lparr>dataInfo := dataInfo s @ r1 @ r2 @ r3\<rparr>))))"

text \<open>The state at line 733, after the reservation and the reset of the sizes.\<close>

definition packingStart ::
  "candidate list \<Rightarrow> candidate list \<Rightarrow> candidate list \<Rightarrow> packing" where
  "packingStart onoff bulksend http =
     (case reserve (int (length onoff)) (int (length bulksend)) (int (length http)) of
        (a, al106, al52, al26) \<Rightarrow>
          \<lparr>allocated106 = al106, allocated52 = al52, allocated26 = al26,
           size2 = int (length onoff), size3 = int (length bulksend),
           size4 = int (length http),
           staInfoIt1 = onoff, staInfoIt2 = bulksend, staInfoIt3 = http,
           dataInfo = [], ruAssigned = []\<rparr>)"

definition mixedPacking ::
  "candidate list \<Rightarrow> candidate list \<Rightarrow> candidate list
     \<Rightarrow> error + (RuAlloc list \<times> candidate list)" where
  "mixedPacking onoff bulksend http =
     bindE (firstMember (packingStart onoff bulksend http)) (\<lambda>s1.
     bindE (parityFix s1) (\<lambda>s2.
     bindE (emit52 s2 3) (\<lambda>s3.
     bindE (emit26Onoff s3 (if allocated52 s2 > 0 then 8 else 6)) (\<lambda>(s4, in2).
     bindE (emit26Http s4 in2) (\<lambda>(s5, in2').
     bindE (leftover s5) (\<lambda>s6. Inr (ruAssigned s6, dataInfo s6)))))))"

subsection \<open>The function\<close>

text \<open>
  \<^verbatim>\<open>GetNumberAndTypeOfRus\<close> reads and rewrites the member \<^verbatim>\<open>m_dataInfo\<close>; the model
  takes it as its last argument and returns the RU allocation together with the new
  \<^verbatim>\<open>m_dataInfo\<close>. Its parameter \<^verbatim>\<open>m_staInfo\<close> is not used by the code, and
  \<^verbatim>\<open>nStations\<close> is not written. In the overflow case (lines 665--696) the second copy
  loop reads \<^verbatim>\<open>size2\<close> elements of \<^verbatim>\<open>bulksend\<close>, and the RU type is that of the first
  entry of the table; on an empty table \<^verbatim>\<open>at\<close> throws whatever the key.
\<close>

definition GetNumberAndTypeOfRus ::
  "tables \<Rightarrow> nat \<Rightarrow> nat \<Rightarrow> candidate list \<Rightarrow> error + (RuAlloc list \<times> candidate list)" where
  "GetNumberAndTypeOfRus T bandwidth nStations m_dataInfo =
     (case classify T m_dataInfo of (onoff0, bulksend0, http0) \<Rightarrow>
      let onoff = sort_class onoff0;
          bulksend = sort_class bulksend0;
          http = sort_class http0;
          size2 = int (length onoff);
          size3 = int (length bulksend);
          size4 = int (length http)
      in
        if size3 = 0 \<or> size2 + size3 + size4 \<le> 1 then
          bindE (degenerateRuType (groups T) bandwidth nStations) (\<lambda>t.
          bindE (uniformEntries (groups T) bandwidth t) (\<lambda>entries.
            Inr (entries, onoff @ bulksend @ http)))
        else if size2 > 7 then
          bindE (readN size2 bulksend) (\<lambda>fromBulksend.
          bindE (case groups T of
                   [] \<Rightarrow> Inl OutOfRange
                 | ru # rest \<Rightarrow> uniformEntries (groups T) bandwidth (snd (fst ru)))
            (\<lambda>entries. Inr (entries, onoff @ fromBulksend @ http)))
        else mixedPacking onoff bulksend http)"

subsection \<open>Notions used in the statements about \<^verbatim>\<open>GetNumberAndTypeOfRus\<close>\<close>

text \<open>
  The test of lines 626 and 632 on one entry of the table: the entry is for the current
  bandwidth and has at most \<open>nStations\<close> RUs, or the bandwidth is 160 MHz, the entry
  is for 80 MHz and twice its number of RUs is at most \<open>nStations\<close>.
\<close>

definition qualifies :: "nat \<Rightarrow> nat \<Rightarrow> (nat \<times> RuType) \<times> nat \<Rightarrow> bool" where
  "qualifies bandwidth nStations ru \<longleftrightarrow>
     fst (fst ru) = bandwidth \<and> snd ru \<le> nStations
     \<or> bandwidth = 160 \<and> fst (fst ru) = 80 \<and> 2 * snd ru \<le> nStations"

text \<open>
  What lines 763--780 do to a state \<open>s1\<close>: nothing when \<^verbatim>\<open>allocated26\<close> is even;
  when it is odd, one candidate \<open>c\<close>, the next of \<^verbatim>\<open>onoff\<close> if one is left and else the
  next of \<^verbatim>\<open>http\<close>, is appended to \<^verbatim>\<open>m_dataInfo\<close> with the 26-tone RU of index 5, and
  \<^verbatim>\<open>allocated26\<close> is one less.
\<close>

definition parityStep :: "packing \<Rightarrow> bool" where
  "parityStep s1 \<longleftrightarrow>
     (even (allocated26 s1) \<and> parityFix s1 = Inr s1)
     \<or> (odd (allocated26 s1) \<and>
         (\<exists>c s2. parityFix s1 = Inr s2
            \<and> dataInfo s2 = dataInfo s1 @ [c]
            \<and> ruAssigned s2 = ruAssigned s1 @ [(RU_26_TONE, 5)]
            \<and> allocated26 s2 = allocated26 s1 - 1 \<and> even (allocated26 s2)
            \<and> staInfoIt2 s2 = staInfoIt2 s1
            \<and> (if staInfoIt1 s1 \<noteq> []
                  then staInfoIt1 s1 = c # staInfoIt1 s2 \<and> staInfoIt3 s2 = staInfoIt3 s1
                else staInfoIt3 s1 = c # staInfoIt3 s2 \<and> staInfoIt1 s2 = [])))"

section \<open>\<^verbatim>\<open>SelectTxFormat\<close>\<close>

subsection \<open>The collaborators and the state\<close>

text \<open>
  What the function reads from the attributes, the MAC and the PHY. The classes behind
  these values are not part of this source file, so each value is a field: durations
  (\<^verbatim>\<open>Time\<close>) are integers, \<open>isNegative\<close> is \<^verbatim>\<open>Time::IsNegative\<close>, \<open>tidToAc\<close> is
  \<^verbatim>\<open>QosUtilsMapTidToAc\<close> with the access categories numbered as \<^verbatim>\<open>AcIndex\<close> is,
  \<open>ulResponse\<close> is the value of \<^verbatim>\<open>response\<close> at line 253, \<open>dlResponse\<close> is the duration
  that line 369 subtracts, and \<open>txDuration\<close> is \<^verbatim>\<open>CalculateTxDuration\<close> as lines 269 and
  281 call it. \<open>staList\<close> is the map of the associated stations, in the order of its
  keys (the AIDs). \<open>peekNextFrame\<close> gives the size of the frame at the head of the queue
  of a TID for a station, if there is one, and \<open>withinLimits\<close> is
  \<^verbatim>\<open>IsWithinSizeAndTimeLimits\<close> for that frame with the tentative RU type and the
  time limit.
\<close>

record env =
  m_nStations :: nat
  m_forceDlOfdma :: bool
  m_enableUlOfdma :: bool
  m_ulPsduSize :: "32 word"
  rrTables :: tables
  channelWidth :: nat
  staList :: "(nat \<times> Mac48Address) list"
  maxBufferStatus :: "Mac48Address \<Rightarrow> 8 word"
  ulMultiStaBlockAck :: bool
  ppduMaxTime :: int
  txopLimitStrictlyPositive :: bool
  txopRemaining :: int
  ulResponse :: int
  dlResponse :: int
  txDuration :: "32 word \<Rightarrow> int"
  isNegative :: "int \<Rightarrow> bool"
  tidToAc :: "nat \<Rightarrow> nat"
  baAgreement :: "Mac48Address \<Rightarrow> nat \<Rightarrow> bool"
  peekNextFrame :: "nat \<Rightarrow> Mac48Address \<Rightarrow> nat option"
  withinLimits :: "nat \<Rightarrow> Mac48Address \<Rightarrow> RuType \<Rightarrow> int \<Rightarrow> bool"

text \<open>
  The members the functions write. \<open>txFormat\<close> is what \<^verbatim>\<open>GetTxFormat ()\<close> returns, the
  format of the previous decision. \<open>muUserInfos\<close> is the map of the user infos of
  \<^verbatim>\<open>m_txVector\<close>, from station identifiers to RUs, in the order of its keys, and
  \<open>txLength\<close> the duration that line 302 stores in it; a vector made anew (line 87) has
  no user info and no duration.
\<close>

record manager =
  m_startStation :: nat
  m_dataInfo :: "candidate list"
  m_staInfo :: "(Mac48Address \<times> DlPerStaInfo) list"
  txFormat :: OfdmaTxFormat
  muUserInfos :: "(nat \<times> RuSpec) list"
  txLength :: "int option"

subsection \<open>Ordered maps\<close>

text \<open>
  A \<^verbatim>\<open>std::map\<close> with natural keys as the list of its entries in the order of the
  keys. \<open>mapSet\<close> is the assignment \<^verbatim>\<open>m[k] = v\<close>, \<open>mapInsert\<close> is \<^verbatim>\<open>insert\<close>, which
  keeps the entry of a key that is already there.
\<close>

fun mapSet :: "nat \<Rightarrow> 'v \<Rightarrow> (nat \<times> 'v) list \<Rightarrow> (nat \<times> 'v) list" where
  "mapSet k v [] = [(k, v)]"
| "mapSet k v (e # m) =
     (if k < fst e then (k, v) # e # m
      else if k = fst e then (k, v) # m
      else e # mapSet k v m)"

fun mapInsert :: "nat \<Rightarrow> 'v \<Rightarrow> (nat \<times> 'v) list \<Rightarrow> (nat \<times> 'v) list" where
  "mapInsert k v [] = [(k, v)]"
| "mapInsert k v (e # m) =
     (if k < fst e then (k, v) # e # m
      else if k = fst e then e # m
      else e # mapInsert k v m)"

subsection \<open>\<^verbatim>\<open>InitTxVectorAndParams\<close> (lines 82--134)\<close>

text \<open>
  The transmit vector is made anew (line 87), and each station of \<open>staList\<close>, in the
  order of the map, gets the RU type of the entry of \<open>ruAssigned\<close> at its position, with
  the index 1; the loop ends with the shorter of the two. The function below gives the
  user infos of the new vector, from the empty map \<open>tx\<close> on; the callers clear
  \<open>txLength\<close> with it.
\<close>

fun InitTxVectorAndParams ::
  "(Mac48Address \<times> DlPerStaInfo) list \<Rightarrow> RuAlloc list \<Rightarrow> (nat \<times> RuSpec) list
     \<Rightarrow> (nat \<times> RuSpec) list" where
  "InitTxVectorAndParams (sta # stas) (ru # rus) tx =
     InitTxVectorAndParams stas rus
       (mapSet (aid (snd sta)) \<lparr>primary80MHz = False, ruType = fst ru, index = 1\<rparr> tx)"
| "InitTxVectorAndParams stas rus tx = tx"

subsection \<open>The uplink path (lines 150--306)\<close>

text \<open>
  The result of the uplink path: a format that \<^verbatim>\<open>SelectTxFormat\<close> returns at once,
  with the state it leaves, or \<open>None\<close> when the function goes on with the downlink path
  (the uplink path is not entered, or \<^verbatim>\<open>maxBufferSize\<close> is 0).
\<close>

definition maxBufferSize :: "env \<Rightarrow> manager \<Rightarrow> 32 word" where
  "maxBufferSize E st =
     maxBufferScan (staList E) (maxBufferStatus E) (m_ulPsduSize E) (map fst (muUserInfos st)) 0"

definition uplinkPath :: "env \<Rightarrow> manager \<Rightarrow> error + (OfdmaTxFormat \<times> manager) option" where
  "uplinkPath E st =
     (if m_enableUlOfdma E \<and> txFormat st = DL_OFDMA then
        if m_ulPsduSize E = 0 then Inl Aborted
        else if \<not> ulMultiStaBlockAck E then Inl Aborted
        else if maxBufferSize E st > 0 then
          if txopLimitStrictlyPositive E \<and> ulResponse E > txopRemaining E
            then Inr (Some (DL_OFDMA, st\<lparr>m_dataInfo := [], m_staInfo := []\<rparr>))
          else
            let maxDuration =
                  (if txopLimitStrictlyPositive E
                     then min (ppduMaxTime E) (txopRemaining E - ulResponse E)
                   else ppduMaxTime E);
                bufferTxTime = txDuration E (maxBufferSize E st)
            in if bufferTxTime < maxDuration
                 then Inr (Some (UL_OFDMA, st\<lparr>txLength := Some bufferTxTime\<rparr>))
               else if maxDuration < txDuration E (m_ulPsduSize E)
                 then Inr (Some (DL_OFDMA, st\<lparr>m_dataInfo := [], m_staInfo := []\<rparr>))
               else Inr (Some (UL_OFDMA, st\<lparr>txLength := Some maxDuration\<rparr>))
        else Inr None
      else Inr None)"

subsection \<open>The selection of the candidates (lines 383--444)\<close>

text \<open>
  The loop over the TIDs for one station (lines 388--436). \<open>ruIt\<close> is the list of the
  entries of \<^verbatim>\<open>ruType\<close> from the iterator on: it starts as the whole vector and loses
  one entry at the end of every iteration that does not \<^verbatim>\<open>break\<close>; an iterator that
  has left the vector stays an empty list. \<^verbatim>\<open>ruIt->first\<close> with the iterator beyond
  the last entry is the error \<open>PastTheEnd\<close>. The result is the candidate the station
  gives, if any.
\<close>

fun scanTids ::
  "env \<Rightarrow> nat \<Rightarrow> int \<Rightarrow> nat \<times> Mac48Address \<Rightarrow> nat list \<Rightarrow> RuAlloc list
     \<Rightarrow> error + candidate option" where
  "scanTids E primaryAc txopLimit sta [] ruIt = Inr None"
| "scanTids E primaryAc txopLimit sta (t # tids) ruIt =
     (if tidToAc E t \<ge> primaryAc \<and> baAgreement E (snd sta) t then
        (case peekNextFrame E t (snd sta) of
           Some frameSize \<Rightarrow>
             (case ruIt of
                [] \<Rightarrow> Inl PastTheEnd
              | ru # rest \<Rightarrow>
                  if withinLimits E t (snd sta) (fst ru) txopLimit
                    then Inr (Some (snd sta, frameSize, \<lparr>aid = fst sta, tid = t\<rparr>))
                  else scanTids E primaryAc txopLimit sta tids (tl ruIt))
         | None \<Rightarrow> scanTids E primaryAc txopLimit sta tids (tl ruIt))
      else scanTids E primaryAc txopLimit sta tids (tl ruIt))"

text \<open>The TIDs in the order of line 389.\<close>

definition tidOrder :: "nat \<Rightarrow> nat list" where
  "tidOrder currTid = [currTid, 1, 2, 0, 3, 4, 5, 6, 7]"

text \<open>
  The stations in the order in which the iterator \<^verbatim>\<open>startIt\<close> visits them until it is
  back at \<^verbatim>\<open>m_startStation\<close>: from the entry of that AID to the end of the map, then
  from the beginning of the map.
\<close>

definition stationsFrom :: "nat \<Rightarrow> (nat \<times> Mac48Address) list \<Rightarrow> (nat \<times> Mac48Address) list" where
  "stationsFrom start stas =
     dropWhile (\<lambda>s. fst s \<noteq> start) stas @ takeWhile (\<lambda>s. fst s \<noteq> start) stas"

text \<open>
  The \<^verbatim>\<open>do ... while\<close> of lines 384--444 over the stations still to visit. The result
  is the state and the stations not visited; the loop ends when \<^verbatim>\<open>m_staInfo\<close> has
  \<^verbatim>\<open>m_nStations\<close> entries or the iterator is back at the first station.
\<close>

fun selectLoop ::
  "env \<Rightarrow> nat \<Rightarrow> int \<Rightarrow> nat \<Rightarrow> RuAlloc list \<Rightarrow> (nat \<times> Mac48Address) list \<Rightarrow> manager
     \<Rightarrow> error + (manager \<times> (nat \<times> Mac48Address) list)" where
  "selectLoop E primaryAc txopLimit currTid ruTypeVec [] st = Inl PastTheEnd"
| "selectLoop E primaryAc txopLimit currTid ruTypeVec (sta # rest) st =
     (case scanTids E primaryAc txopLimit sta (tidOrder currTid) ruTypeVec of
        Inl e \<Rightarrow> Inl e
      | Inr found \<Rightarrow>
          (let st' = (case found of
                        None \<Rightarrow> st
                      | Some c \<Rightarrow> st\<lparr>m_dataInfo := m_dataInfo st @ [c],
                                      m_staInfo := m_staInfo st @ [(fst c, snd (snd c))]\<rparr>)
           in if length (m_staInfo st') < m_nStations E \<and> rest \<noteq> []
                then selectLoop E primaryAc txopLimit currTid ruTypeVec rest st'
              else Inr (st', rest)))"

subsection \<open>The downlink path (lines 308--458)\<close>

text \<open>The \<^verbatim>\<open>do ... while\<close> of lines 341--348 that fills the map \<^verbatim>\<open>guess\<close>.\<close>

fun guessLoop ::
  "nat \<Rightarrow> nat \<Rightarrow> (nat \<times> Mac48Address) list \<Rightarrow> (Mac48Address \<times> DlPerStaInfo) list
     \<Rightarrow> (Mac48Address \<times> DlPerStaInfo) list" where
  "guessLoop nGuess currTid [] guess = guess"
| "guessLoop nGuess currTid (sta # rest) guess =
     (let guess' = mapSet (snd sta) \<lparr>aid = fst sta, tid = currTid\<rparr> guess
      in if length guess' < nGuess \<and> rest \<noteq> [] then guessLoop nGuess currTid rest guess'
         else guess')"

text \<open>
  Lines 446--455 and 373--379: what is returned when no receiver can be served.
\<close>

definition noReceivers :: "env \<Rightarrow> OfdmaTxFormat" where
  "noReceivers E = (if m_forceDlOfdma E then DL_OFDMA else NON_OFDMA)"

text \<open>
  Lines 309--317: the station at which the round starts is the one \<^verbatim>\<open>m_startStation\<close>
  names or, when no station has that AID, the first of the map.
\<close>

definition dlStart :: "env \<Rightarrow> manager \<Rightarrow> nat" where
  "dlStart E st =
     (if map_of (staList E) (m_startStation st) = None then fst (hd (staList E))
      else m_startStation st)"

definition dlRound :: "env \<Rightarrow> manager \<Rightarrow> (nat \<times> Mac48Address) list" where
  "dlRound E st = stationsFrom (dlStart E st) (staList E)"

text \<open>Lines 356--369: the time left for the data frames.\<close>

definition dlTxopLimit :: "env \<Rightarrow> int" where
  "dlTxopLimit E =
     (if txopLimitStrictlyPositive E then txopRemaining E - dlResponse E else 0)"

text \<open>
  The state at line 355: the candidates are cleared (\<^verbatim>\<open>GetNumberAndTypeOfRus\<close> was
  called on the cleared \<^verbatim>\<open>m_dataInfo\<close> and has rewritten it) and the transmit vector is
  made anew for the guessed receivers, without a duration.
\<close>

definition dlInit :: "env \<Rightarrow> nat \<Rightarrow> manager \<Rightarrow> RuAlloc list \<Rightarrow> candidate list \<Rightarrow> manager" where
  "dlInit E currTid st ruTypeVec dataInfo' =
     st\<lparr>m_startStation := dlStart E st, m_dataInfo := dataInfo', m_staInfo := [],
        muUserInfos :=
          InitTxVectorAndParams (guessLoop (m_nStations E) currTid (dlRound E st) [])
            ruTypeVec [],
        txLength := None\<rparr>"

text \<open>
  Lines 446--458, after the selection has ended with the state \<open>st2\<close> and the stations
  \<open>rest\<close> not visited: \<^verbatim>\<open>startIt\<close> is at the first of them, or back at the first
  station of the round.
\<close>

definition selected ::
  "env \<Rightarrow> (nat \<times> Mac48Address) list \<Rightarrow> manager \<times> (nat \<times> Mac48Address) list
     \<Rightarrow> OfdmaTxFormat \<times> manager" where
  "selected E round r =
     (case r of (st2, rest) \<Rightarrow>
        if m_staInfo st2 = [] then (noReceivers E, st2)
        else (DL_OFDMA,
              st2\<lparr>m_startStation := fst (case rest of [] \<Rightarrow> hd round | sta # later \<Rightarrow> sta)\<rparr>))"

text \<open>
  The downlink path. With an empty map of stations, line 316 reads the iterator
  \<^verbatim>\<open>begin ()\<close>, which is \<^verbatim>\<open>end ()\<close>. \<^verbatim>\<open>GetNumberAndTypeOfRus\<close> is called after
  \<^verbatim>\<open>m_dataInfo\<close> is cleared.
\<close>

definition downlinkPath :: "env \<Rightarrow> nat \<Rightarrow> manager \<Rightarrow> error + (OfdmaTxFormat \<times> manager)" where
  "downlinkPath E currTid st =
     (if staList E = [] then Inl PastTheEnd
      else
        bindE (GetNumberAndTypeOfRus (rrTables E) (channelWidth E) (m_nStations E) [])
          (\<lambda>(ruTypeVec, dataInfo').
             if \<not> m_nStations E \<ge> 1 then Inl AssertFailed
             else if txopLimitStrictlyPositive E \<and> isNegative E (dlTxopLimit E)
               then Inr (noReceivers E, dlInit E currTid st ruTypeVec dataInfo')
             else
               bindE (selectLoop E (tidToAc E currTid) (dlTxopLimit E) currTid ruTypeVec
                        (dlRound E st) (dlInit E currTid st ruTypeVec dataInfo'))
                 (\<lambda>r. Inr (selected E (dlRound E st) r))))"

subsection \<open>The whole function\<close>

definition SelectTxFormat :: "env \<Rightarrow> nat \<Rightarrow> manager \<Rightarrow> error + (OfdmaTxFormat \<times> manager)" where
  "SelectTxFormat E currTid st =
     bindE (uplinkPath E st)
       (\<lambda>r. case r of Some result \<Rightarrow> Inr result | None \<Rightarrow> downlinkPath E currTid st)"

section \<open>\<^verbatim>\<open>ComputeDlOfdmaInfo\<close> (lines 831--931)\<close>

text \<open>
  \<^verbatim>\<open>m_txVector.SetRu (ru, staId)\<close> writes the RU of the user info of that station
  identifier, which is made if it is not there.
\<close>

definition SetRu :: "RuSpec \<Rightarrow> nat \<Rightarrow> (nat \<times> RuSpec) list \<Rightarrow> (nat \<times> RuSpec) list" where
  "SetRu ru staId tx = mapSet staId ru tx"

text \<open>
  The loop of lines 903--912 for one value of \<^verbatim>\<open>primary80MHz\<close>, with the number of
  iterations left. \<open>mapIt\<close> and \<open>ruIt\<close> are the entries from the two iterators on; the
  assertion of line 905 comes before the read of \<^verbatim>\<open>ruIt\<close>.
\<close>

fun assignHalf ::
  "nat \<Rightarrow> bool \<Rightarrow> (Mac48Address \<times> DlPerStaInfo) list \<Rightarrow> RuAlloc list \<Rightarrow> (nat \<times> RuSpec) list
     \<Rightarrow> error + ((Mac48Address \<times> DlPerStaInfo) list \<times> RuAlloc list \<times> (nat \<times> RuSpec) list)" where
  "assignHalf 0 primary mapIt ruIt tx = Inr (mapIt, ruIt, tx)"
| "assignHalf (Suc n) primary [] ruIt tx = Inl AssertFailed"
| "assignHalf (Suc n) primary (sta # mapIt) [] tx = Inl PastTheEnd"
| "assignHalf (Suc n) primary (sta # mapIt) (ru # ruIt) tx =
     assignHalf n primary mapIt ruIt
       (SetRu \<lparr>primary80MHz = primary, ruType = fst ru, index = snd ru\<rparr> (aid (snd sta)) tx)"

text \<open>The loop of lines 901--913 over \<^verbatim>\<open>primary80MHzSet\<close>; the iterators go on.\<close>

fun assignRus ::
  "bool list \<Rightarrow> nat \<Rightarrow> (Mac48Address \<times> DlPerStaInfo) list \<Rightarrow> RuAlloc list
     \<Rightarrow> (nat \<times> RuSpec) list \<Rightarrow> error + (nat \<times> RuSpec) list" where
  "assignRus [] nRusAssigned mapIt ruIt tx = Inr tx"
| "assignRus (primary # others) nRusAssigned mapIt ruIt tx =
     (case assignHalf nRusAssigned primary mapIt ruIt tx of
        Inl e \<Rightarrow> Inl e
      | Inr (mapIt', ruIt', tx') \<Rightarrow> assignRus others nRusAssigned mapIt' ruIt' tx')"

text \<open>
  The loop of lines 854--861: the first \<open>n\<close> candidates are inserted in the map
  \<^verbatim>\<open>dlOfdmaInfo.staInfo\<close>; the assertion of line 856 fails when there are fewer.
\<close>

fun servedStations ::
  "nat \<Rightarrow> candidate list \<Rightarrow> (Mac48Address \<times> DlPerStaInfo) list
     \<Rightarrow> error + (Mac48Address \<times> DlPerStaInfo) list" where
  "servedStations 0 staInfoIt m = Inr m"
| "servedStations (Suc n) [] m = Inl AssertFailed"
| "servedStations (Suc n) (c # staInfoIt) m =
     servedStations n staInfoIt (mapInsert (fst c) (snd (snd c)) m)"

text \<open>The part of \<^verbatim>\<open>DlOfdmaInfo\<close> that the function computes here.\<close>

record DlOfdmaInfo =
  staInfo :: "(Mac48Address \<times> DlPerStaInfo) list"
  txVector :: "(nat \<times> RuSpec) list"

definition ComputeDlOfdmaInfo :: "env \<Rightarrow> manager \<Rightarrow> error + (DlOfdmaInfo \<times> manager)" where
  "ComputeDlOfdmaInfo E st =
     (if m_staInfo st = [] then Inr (\<lparr>staInfo = [], txVector = []\<rparr>, st)
      else
        let bw = channelWidth E in
        bindE (GetNumberAndTypeOfRus (rrTables E) bw (length (m_dataInfo st)) (m_dataInfo st))
          (\<lambda>(ruAssigned, dataInfo').
             let nRusAssigned = length ruAssigned in
             bindE (servedStations nRusAssigned dataInfo' []) (\<lambda>served.
               let st1 = st\<lparr>m_dataInfo := dataInfo',
                             m_startStation :=
                               (if nRusAssigned < length dataInfo'
                                  then aid (snd (snd (dataInfo' ! nRusAssigned)))
                                else m_startStation st)\<rparr>;
                   tx = InitTxVectorAndParams served ruAssigned [];
                   primary80MHzSet = (if bw = 160 then [True, False] else [True])
               in bindE (assignRus primary80MHzSet nRusAssigned served ruAssigned tx)
                    (\<lambda>tx'. Inr (\<lparr>staInfo = served, txVector = tx'\<rparr>,
                                 st1\<lparr>muUserInfos := tx', txLength := None\<rparr>)))))"

section \<open>Notions used in the statements about \<^verbatim>\<open>SelectTxFormat\<close>\<close>

text \<open>
  For the TID \<open>t\<close> the loop of lines 389--436 reaches the tentative assignment of an RU
  to the station (line 413): the access category is not below the primary one, a block
  ack agreement is established and a frame is queued.
\<close>

definition tentative :: "env \<Rightarrow> nat \<Rightarrow> nat \<times> Mac48Address \<Rightarrow> nat \<Rightarrow> bool" where
  "tentative E primaryAc sta t \<longleftrightarrow>
     tidToAc E t \<ge> primaryAc \<and> baAgreement E (snd sta) t
     \<and> peekNextFrame E t (snd sta) \<noteq> None"

section \<open>Concrete inputs\<close>

text \<open>
  The inputs at which the statements below are evaluated. \<open>cand a s\<close> is a candidate
  with the address and the AID \<open>a\<close> and a pending frame of \<open>s\<close> bytes. In \<open>exTables\<close> the
  addresses 1 to 29 are in \<^verbatim>\<open>bulksend1\<close>, 30 to 59 in \<^verbatim>\<open>onoff1\<close> and 60 to 89 in
  \<^verbatim>\<open>http1\<close>. \<open>acOf\<close> maps the TIDs to the access categories as IEEE 802.11 does, with
  the numbers of \<^verbatim>\<open>AcIndex\<close> (0 best effort, 1 background, 2 video, 3 voice).
\<close>

definition cand :: "nat \<Rightarrow> nat \<Rightarrow> candidate" where
  "cand a s = (a, s, \<lparr>aid = a, tid = 0\<rparr>)"

definition exTables :: tables where
  "exTables = \<lparr>groups = heRuSubcarrierGroups, bulksend1 = [1..<30], onoff1 = [30..<60],
               http1 = [60..<90]\<rparr>"

definition acOf :: "nat \<Rightarrow> nat" where
  "acOf t = (if t = 0 \<or> t = 3 then 0 else if t = 1 \<or> t = 2 then 1
             else if t = 4 \<or> t = 5 then 2 else 3)"

text \<open>
  An access point on 20 MHz with one associated station (AID 1, address 101) that
  reports an empty buffer and to which no frame is queued; the previous decision was
  a downlink OFDMA transmission to that station.
\<close>

definition exIdleEnv :: env where
  "exIdleEnv =
     \<lparr>m_nStations = 4, m_forceDlOfdma = False, m_enableUlOfdma = True, m_ulPsduSize = 500,
      rrTables = exTables, channelWidth = 20, staList = [(1, 101)],
      maxBufferStatus = (\<lambda>a. 0), ulMultiStaBlockAck = True, ppduMaxTime = 5000,
      txopLimitStrictlyPositive = False, txopRemaining = 0, ulResponse = 0, dlResponse = 0,
      txDuration = (\<lambda>n. 1), isNegative = (\<lambda>t. t \<le> 0), tidToAc = acOf,
      baAgreement = (\<lambda>a t. False), peekNextFrame = (\<lambda>t a. None),
      withinLimits = (\<lambda>t a r l. True)\<rparr>"

definition exAfterDl :: manager where
  "exAfterDl =
     \<lparr>m_startStation = 1, m_dataInfo = [], m_staInfo = [], txFormat = DL_OFDMA,
      muUserInfos = [(1, \<lparr>primary80MHz = True, ruType = RU_242_TONE, index = 1\<rparr>)],
      txLength = None\<rparr>"

text \<open>
  An access point on 20 MHz that serves one station per transmission; to its only
  station a frame of 100 bytes is queued for the TID 1, with a block ack agreement for
  that TID only. The scheduler is entered with a frame of the TID 0.
\<close>

definition exTid1Env :: env where
  "exTid1Env =
     \<lparr>m_nStations = 1, m_forceDlOfdma = False, m_enableUlOfdma = False, m_ulPsduSize = 500,
      rrTables = exTables, channelWidth = 20, staList = [(1, 101)],
      maxBufferStatus = (\<lambda>a. 0), ulMultiStaBlockAck = True, ppduMaxTime = 5000,
      txopLimitStrictlyPositive = False, txopRemaining = 0, ulResponse = 0, dlResponse = 0,
      txDuration = (\<lambda>n. 1), isNegative = (\<lambda>t. t \<le> 0), tidToAc = acOf,
      baAgreement = (\<lambda>a t. t = 1), peekNextFrame = (\<lambda>t a. if t = 1 then Some 100 else None),
      withinLimits = (\<lambda>t a r l. True)\<rparr>"

definition exFresh :: manager where
  "exFresh =
     \<lparr>m_startStation = 0, m_dataInfo = [], m_staInfo = [], txFormat = NON_OFDMA,
      muUserInfos = [], txLength = None\<rparr>"

text \<open>
  An access point on 20 MHz that serves up to four stations per transmission and holds
  a TXOP with time left after the response. To its only station frames of 1500 bytes
  are queued for the TIDs 0 and 3, under block ack agreements, and neither fits the
  limits.
\<close>

definition exNoFitEnv :: env where
  "exNoFitEnv =
     \<lparr>m_nStations = 4, m_forceDlOfdma = False, m_enableUlOfdma = False, m_ulPsduSize = 500,
      rrTables = exTables, channelWidth = 20, staList = [(1, 101)],
      maxBufferStatus = (\<lambda>a. 0), ulMultiStaBlockAck = True, ppduMaxTime = 5000,
      txopLimitStrictlyPositive = True, txopRemaining = 200, ulResponse = 0, dlResponse = 100,
      txDuration = (\<lambda>n. 1), isNegative = (\<lambda>t. t \<le> 0), tidToAc = acOf,
      baAgreement = (\<lambda>a t. t = 0 \<or> t = 3),
      peekNextFrame = (\<lambda>t a. if t = 0 \<or> t = 3 then Some 1500 else None),
      withinLimits = (\<lambda>t a r l. False)\<rparr>"

text \<open>
  An access point on 20 MHz that holds a TXOP of which less is left than the response
  takes; a frame of 100 bytes is queued for its only station.
\<close>

definition exShortEnv :: env where
  "exShortEnv =
     \<lparr>m_nStations = 4, m_forceDlOfdma = False, m_enableUlOfdma = False, m_ulPsduSize = 500,
      rrTables = exTables, channelWidth = 20, staList = [(1, 101)],
      maxBufferStatus = (\<lambda>a. 0), ulMultiStaBlockAck = True, ppduMaxTime = 5000,
      txopLimitStrictlyPositive = True, txopRemaining = 50, ulResponse = 0, dlResponse = 100,
      txDuration = (\<lambda>n. 1), isNegative = (\<lambda>t. t \<le> 0), tidToAc = acOf,
      baAgreement = (\<lambda>a t. True), peekNextFrame = (\<lambda>t a. Some 100),
      withinLimits = (\<lambda>t a r l. True)\<rparr>"

text \<open>
  Sixteen candidates with frames of 100 bytes, eight of the class \<^verbatim>\<open>onoff\<close> and eight
  of the class \<^verbatim>\<open>bulksend\<close>.
\<close>

definition exOverflowBatch :: "candidate list" where
  "exOverflowBatch = map (\<lambda>a. cand a 100) ([30..<38] @ [1..<9])"

text \<open>
  Twenty candidates: nine of the class \<^verbatim>\<open>onoff\<close> with frames of 300 to 380 bytes, ten
  of the class \<^verbatim>\<open>bulksend\<close> with frames of 100 bytes and one of the class \<^verbatim>\<open>http\<close>.
\<close>

definition exOverflowTwenty :: "candidate list" where
  "exOverflowTwenty =
     map (\<lambda>a. cand a (10 * a)) [30..<39] @ map (\<lambda>a. cand a 100) [1..<11] @ [cand 60 50]"

text \<open>
  The state of the packing after the first member is assigned, for one candidate of
  the class \<^verbatim>\<open>bulksend\<close> (address 1) and one of the class \<^verbatim>\<open>onoff\<close> (address 30).
\<close>

definition exAfterFirst :: packing where
  "exAfterFirst =
     \<lparr>allocated106 = 1, allocated52 = 0, allocated26 = 1, size2 = 1, size3 = 0, size4 = 0,
      staInfoIt1 = [cand 30 100], staInfoIt2 = [], staInfoIt3 = [],
      dataInfo = [cand 1 100], ruAssigned = [(RU_106_TONE, 1)]\<rparr>"

text \<open>
  An access point on 40 MHz that serves up to sixteen stations per transmission. Its
  sixteen stations have the AIDs and addresses 1 to 8 (class \<^verbatim>\<open>bulksend\<close>) and 30 to 37
  (class \<^verbatim>\<open>onoff\<close>); for each a frame of 100 bytes is queued for every TID, under a
  block ack agreement. \<open>exSixteen\<close> is the state in which \<^verbatim>\<open>SelectTxFormat\<close> leaves the
  manager there.
\<close>

definition exWideEnv :: env where
  "exWideEnv =
     \<lparr>m_nStations = 16, m_forceDlOfdma = False, m_enableUlOfdma = False, m_ulPsduSize = 500,
      rrTables = exTables, channelWidth = 40,
      staList = map (\<lambda>a. (a, a)) ([1..<9] @ [30..<38]),
      maxBufferStatus = (\<lambda>a. 0), ulMultiStaBlockAck = True, ppduMaxTime = 5000,
      txopLimitStrictlyPositive = False, txopRemaining = 0, ulResponse = 0, dlResponse = 0,
      txDuration = (\<lambda>n. 1), isNegative = (\<lambda>t. t \<le> 0), tidToAc = acOf,
      baAgreement = (\<lambda>a t. True), peekNextFrame = (\<lambda>t a. Some 100),
      withinLimits = (\<lambda>t a r l. True)\<rparr>"

definition exSixteen :: manager where
  "exSixteen =
     \<lparr>m_startStation = 1,
      m_dataInfo = map (\<lambda>a. cand a 100) ([1..<9] @ [30..<38]),
      m_staInfo = map (\<lambda>a. (a, \<lparr>aid = a, tid = 0\<rparr>)) ([1..<9] @ [30..<38]),
      txFormat = NON_OFDMA,
      muUserInfos = map (\<lambda>a. (a, \<lparr>primary80MHz = False, ruType = RU_52_TONE, index = 1\<rparr>))
                      [1..<9],
      txLength = None\<rparr>"

text \<open>
  An access point on 160 MHz with two candidates, one of the class \<^verbatim>\<open>bulksend\<close>
  (address 1) and one of the class \<^verbatim>\<open>onoff\<close> (address 30).
\<close>

definition ex160Env :: env where
  "ex160Env =
     \<lparr>m_nStations = 4, m_forceDlOfdma = False, m_enableUlOfdma = False, m_ulPsduSize = 500,
      rrTables = exTables, channelWidth = 160, staList = [(1, 1), (30, 30)],
      maxBufferStatus = (\<lambda>a. 0), ulMultiStaBlockAck = True, ppduMaxTime = 5000,
      txopLimitStrictlyPositive = False, txopRemaining = 0, ulResponse = 0, dlResponse = 0,
      txDuration = (\<lambda>n. 1), isNegative = (\<lambda>t. t \<le> 0), tidToAc = acOf,
      baAgreement = (\<lambda>a t. True), peekNextFrame = (\<lambda>t a. Some 100),
      withinLimits = (\<lambda>t a r l. True)\<rparr>"

definition exTwo :: manager where
  "exTwo =
     \<lparr>m_startStation = 1,
      m_dataInfo = [cand 1 100, cand 30 100],
      m_staInfo = [(1, \<lparr>aid = 1, tid = 0\<rparr>), (30, \<lparr>aid = 30, tid = 0\<rparr>)],
      txFormat = DL_OFDMA, muUserInfos = [], txLength = None\<rparr>"

text \<open>
  Ten candidates with frames of 100 bytes: seven of the class \<^verbatim>\<open>onoff\<close>, one of the
  class \<^verbatim>\<open>bulksend\<close> and two of the class \<^verbatim>\<open>http\<close>.
\<close>

definition exMixedBatch :: "candidate list" where
  "exMixedBatch = map (\<lambda>a. cand a 100) ([30..<37] @ [1..<2] @ [60..<62])"

section \<open>Basic facts\<close>

lemma bindE_Inr [simp]: "bindE (Inr x) f = f x"
  by (simp add: bindE_def)

lemma bindE_Inl [simp]: "bindE (Inl e) f = Inl e"
  by (simp add: bindE_def)

lemma bindE_eq_Inr: "bindE m f = Inr y \<longleftrightarrow> (\<exists>x. m = Inr x \<and> f x = Inr y)"
  by (cases m) simp_all

lemma type_simps [simp]: "type1 = RU_106_TONE" "type2 = RU_52_TONE" "type3 = RU_26_TONE"
  by (simp_all add: type1_def type2_def type3_def table_def)

section \<open>Properties of the buffer status scan\<close>

lemma reportsOf_Nil: "reportsOf stas status [] = []"
  by (simp add: reportsOf_def List.map_filter_simps)

lemma reportsOf_Cons:
  "reportsOf stas status (u # us) =
     (case map_of stas u of
        None \<Rightarrow> reportsOf stas status us
      | Some a \<Rightarrow> status a # reportsOf stas status us)"
  by (simp add: reportsOf_def List.map_filter_simps split: option.splits)

lemma maxBufferScan_unbounded:
  "254 \<in> set (reportsOf stas status us)
     \<Longrightarrow> maxBufferScan stas status psdu us m = 0xffffffff"
proof (induction us arbitrary: m)
  case Nil
  then show ?case by (simp add: reportsOf_Nil)
next
  case (Cons u us)
  show ?case
  proof (cases "map_of stas u")
    case None
    with Cons show ?thesis by (simp add: reportsOf_Cons)
  next
    case (Some a)
    with Cons show ?thesis by (auto simp: reportsOf_Cons Let_def)
  qed
qed

lemma maxBufferScan_bounded:
  "254 \<notin> set (reportsOf stas status us)
     \<Longrightarrow> maxBufferScan stas status psdu us m
         = Max (insert m (reportBytes psdu ` set (reportsOf stas status us)))"
proof (induction us arbitrary: m)
  case Nil
  then show ?case by (simp add: reportsOf_Nil)
next
  case (Cons u us)
  show ?case
  proof (cases "map_of stas u")
    case None
    with Cons show ?thesis by (simp add: reportsOf_Cons)
  next
    case (Some a)
    let ?S = "reportBytes psdu ` set (reportsOf stas status us)"
    have fin: "finite ?S" by simp
    have not254: "status a \<noteq> 254" "254 \<notin> set (reportsOf stas status us)"
      using Cons.prems Some by (auto simp: reportsOf_Cons)
    have step: "maxBufferScan stas status psdu (u # us) m
          = maxBufferScan stas status psdu us (max m (reportBytes psdu (status a)))"
      using Some not254 by (simp add: reportBytes_def Let_def)
    have "Max (insert (max m (reportBytes psdu (status a))) ?S)
          = Max (insert m (insert (reportBytes psdu (status a)) ?S))"
    proof (cases "?S = {}")
      case True
      then show ?thesis by (simp add: max.commute)
    next
      case False
      then show ?thesis using fin by (simp add: max.assoc)
    qed
    then show ?thesis
      using step Cons.IH [OF not254(2)] Some by (simp add: reportsOf_Cons)
  qed
qed

lemma unat_queueSize: "unat (q :: 8 word) < 256"
  using unsigned_less[of q, where 'a=nat] by simp

lemma unat_ucast_queueSize: "unat (ucast (q :: 8 word) :: 32 word) = unat q"
proof -
  have "unat q < 2 ^ 32" using unat_queueSize[of q] by simp
  then have "take_bit 32 (unat q) = unat q" by (simp only: take_bit_nat_eq_self)
  then show ?thesis by (simp add: unsigned_ucast_eq)
qed

lemma unat_queueSize_bytes: "unat ((ucast (q :: 8 word) :: 32 word) * 256) = unat q * 256"
proof -
  have "unat (ucast q :: 32 word) * unat (256 :: 32 word) < 2 ^ LENGTH(32)"
    using unat_queueSize[of q] by (simp add: unat_ucast_queueSize)
  then have "unat ((ucast q :: 32 word) * 256)
               = unat (ucast q :: 32 word) * unat (256 :: 32 word)"
    by (simp only: unat_mult_lem)
  then show ?thesis by (simp add: unat_ucast_queueSize)
qed

lemma reportBytes_unat:
  "unat (reportBytes psdu q) = (if q = 255 then unat psdu else unat q * 256)"
  by (simp add: reportBytes_def unat_queueSize_bytes)

text \<open>
  C3. In the uplink path the estimate of pending bytes is computed over the stations of
  the previous downlink allocation that are still associated; a station that is not in
  the table of the associated stations is skipped. If one of them reports the code 254
  the estimate is the largest 32-bit value, whatever the others report; otherwise it is
  the maximum, over these stations, of the minimum uplink PSDU size for the code 255 and
  of 256 times the code for every other code (and 0 when no station reports).
\<close>

theorem maxBufferSize_estimate:
  "maxBufferSize E st =
     (if 254 \<in> set (reportsOf (staList E) (maxBufferStatus E) (map fst (muUserInfos st)))
        then 0xffffffff
      else Max (insert 0 (reportBytes (m_ulPsduSize E) `
                  set (reportsOf (staList E) (maxBufferStatus E) (map fst (muUserInfos st))))))
   \<and> reportsOf (staList E) (maxBufferStatus E) (map fst (muUserInfos st))
       = map (maxBufferStatus E)
           (List.map_filter (map_of (staList E)) (map fst (muUserInfos st)))
   \<and> (\<forall>q. unat (reportBytes (m_ulPsduSize E) q)
            = (if q = 255 then unat (m_ulPsduSize E) else unat q * 256))"
  by (simp add: maxBufferSize_def maxBufferScan_unbounded maxBufferScan_bounded
        reportBytes_unat reportsOf_def)

section \<open>The merge sort sorts, and is stable\<close>

lemma copy_rest_eq:
  "i + n = length L \<Longrightarrow> k + n \<le> length v \<Longrightarrow>
   copy_rest L v i (int k) = (take k v @ drop i L @ drop (k + n) v, int (k + n))"
proof (induction L v i "int k" arbitrary: k n rule: copy_rest.induct)
  case (1 L v i)
  show ?case
  proof (cases n)
    case 0
    then have "\<not> i < length L" "drop i L = []" using 1(2) by simp_all
    then show ?thesis using 0 by (subst copy_rest.simps) simp
  next
    case (Suc n')
    have il: "i < length L" using Suc 1(2) by simp
    have kv: "k < length v" using Suc 1(3) by simp
    have "copy_rest L v i (int k) = copy_rest L (v[k := L ! i]) (i + 1) (int (k + 1))"
      using il by (subst copy_rest.simps) (simp add: add.commute)
    also have "\<dots> = (take (k + 1) (v[k := L ! i]) @ drop (i + 1) L
                      @ drop (k + 1 + n') (v[k := L ! i]), int (k + 1 + n'))"
      using 1(1)[of "k + 1" n'] il Suc 1(2) 1(3) by (simp add: add.commute)
    also have "take (k + 1) (v[k := L ! i]) = take k v @ [L ! i]"
      using kv by (simp add: take_Suc_conv_app_nth)
    also have "drop (k + 1 + n') (v[k := L ! i]) = drop (k + n) v"
      using Suc by simp
    also have "k + 1 + n' = k + n" using Suc by simp
    finally show ?thesis using il by (simp add: Cons_nth_drop_Suc)
  qed
qed

lemma lmerge_Nil_left: "lmerge [] ys = ys"
  by (cases ys) simp_all

lemma finish_exhausted:
  assumes "i + n = length L" "j + m = length R" "n = 0 \<or> m = 0" "k + n + m \<le> length v"
  shows "finish L R (v, i, j, int k)
           = take k v @ lmerge (drop i L) (drop j R) @ drop (k + n + m) v"
proof -
  have c1: "copy_rest L v i (int k) = (take k v @ drop i L @ drop (k + n) v, int (k + n))"
    using assms by (intro copy_rest_eq) simp_all
  define v2 where "v2 = take k v @ drop i L @ drop (k + n) v"
  have ldrop: "length (drop i L) = n" using assms(1) by simp
  have len2: "length v2 = length v" using assms(4) ldrop by (simp add: v2_def)
  have c2: "copy_rest R v2 j (int (k + n))
              = (take (k + n) v2 @ drop j R @ drop (k + n + m) v2, int (k + n + m))"
    using assms len2 by (intro copy_rest_eq) simp_all
  have lk: "length (take k v) = k" using assms(4) by simp
  have t: "take (k + n) v2 = take k v @ drop i L"
    unfolding v2_def using lk ldrop by (simp add: take_all_iff)
  have d: "drop (k + n + m) v2 = drop (k + n + m) v"
    unfolding v2_def using lk ldrop by (simp add: add.commute add.left_commute)
  have lm: "lmerge (drop i L) (drop j R) = drop i L @ drop j R"
    using assms(1,2,3) by (auto simp: lmerge_Nil_left)
  show ?thesis
    unfolding finish_def using c1 c2 t d lm by (simp add: v2_def)
qed


lemma merge_loop_eq:
  "i + n = length L \<Longrightarrow> j + m = length R \<Longrightarrow> k + n + m \<le> length v \<Longrightarrow>
   int (k + n + m) \<le> r + 1 \<Longrightarrow>
   finish L R (merge_loop L R v r i j (int k))
     = take k v @ lmerge (drop i L) (drop j R) @ drop (k + n + m) v"
proof (induction L R v r i j "int k" arbitrary: k n m rule: merge_loop.induct)
  case (1 L R v r i j)
  show ?case
  proof (cases "n = 0 \<or> m = 0")
    case True
    then have "\<not> (i < length L \<and> j < length R)" using 1(3,4) by auto
    then have "merge_loop L R v r i j (int k) = (v, i, j, int k)"
      by (subst merge_loop.simps) auto
    then show ?thesis using finish_exhausted[OF 1(3) 1(4) True 1(5)] by simp
  next
    case False
    then obtain n' m' where nm: "n = Suc n'" "m = Suc m'"
      by (cases n; cases m) auto
    have il: "i < length L" and jl: "j < length R" using nm 1(3,4) by simp_all
    have kr: "int k \<le> r" using 1(6) nm by simp
    have kv: "k < length v" using 1(5) nm by simp
    have dl: "drop i L = L ! i # drop (i + 1) L" using il by (simp add: Cons_nth_drop_Suc)
    have dr: "drop j R = R ! j # drop (j + 1) R" using jl by (simp add: Cons_nth_drop_Suc)
    show ?thesis
    proof (cases "psize (L ! i) \<ge> psize (R ! j)")
      case ge: True
      have step: "merge_loop L R v r i j (int k)
                    = merge_loop L R (v[k := L ! i]) r (i + 1) j (int (k + 1))"
        using il jl kr ge by (subst merge_loop.simps) (simp add: add.commute)
      have "finish L R (merge_loop L R (v[k := L ! i]) r (i + 1) j (int (k + 1)))
              = take (k + 1) (v[k := L ! i]) @ lmerge (drop (i + 1) L) (drop j R)
                @ drop (k + 1 + n' + m) (v[k := L ! i])"
        using 1(1)[of "k + 1" n' m] il jl kr ge nm 1(3,4,5,6) by (simp add: add.commute)
      also have "take (k + 1) (v[k := L ! i]) = take k v @ [L ! i]"
        using kv by (simp add: take_Suc_conv_app_nth)
      also have "drop (k + 1 + n' + m) (v[k := L ! i]) = drop (k + n + m) v"
        using nm by simp
      finally have "finish L R (merge_loop L R v r i j (int k))
          = take k v @ (L ! i # lmerge (drop (i + 1) L) (drop j R)) @ drop (k + n + m) v"
        using step by simp
      moreover have "lmerge (drop i L) (drop j R) = L ! i # lmerge (drop (i + 1) L) (drop j R)"
        using ge by (subst dl, subst dr, simp) (simp add: dr)
      ultimately show ?thesis by simp
    next
      case lt: False
      have step: "merge_loop L R v r i j (int k)
                    = merge_loop L R (v[k := R ! j]) r i (j + 1) (int (k + 1))"
        using il jl kr lt by (subst merge_loop.simps) (simp add: add.commute)
      have "finish L R (merge_loop L R (v[k := R ! j]) r i (j + 1) (int (k + 1)))
              = take (k + 1) (v[k := R ! j]) @ lmerge (drop i L) (drop (j + 1) R)
                @ drop (k + 1 + n + m') (v[k := R ! j])"
        using 1(2)[of "k + 1" n m'] il jl kr lt nm 1(3,4,5,6) by (simp add: add.commute)
      also have "take (k + 1) (v[k := R ! j]) = take k v @ [R ! j]"
        using kv by (simp add: take_Suc_conv_app_nth)
      also have "drop (k + 1 + n + m') (v[k := R ! j]) = drop (k + n + m) v"
        using nm by simp
      finally have "finish L R (merge_loop L R v r i j (int k))
          = take k v @ (R ! j # lmerge (drop i L) (drop (j + 1) R)) @ drop (k + n + m) v"
        using step by simp
      moreover have "lmerge (drop i L) (drop j R) = R ! j # lmerge (drop i L) (drop (j + 1) R)"
        using lt by (subst dl, subst dr, simp) (simp add: dl)
      ultimately show ?thesis by simp
    qed
  qed
qed

lemma seg_nth: "i < n \<Longrightarrow> p + n \<le> length v \<Longrightarrow> seg v p n ! i = v ! (p + i)"
  by (simp add: seg_def)

lemma seg_length: "p + n \<le> length v \<Longrightarrow> length (seg v p n) = n"
  by (simp add: seg_def)

lemma merge_eq:
  assumes "p \<le> q" "q < r" "r < length v"
  shows "merge v (int p) (int q) (int r)
           = take p v @ lmerge (seg v p (q - p + 1)) (seg v (q + 1) (r - q)) @ drop (r + 1) v"
proof -
  define L where "L = map (\<lambda>i. v ! nat (int p + int i)) [0..<nat (int q - int p + 1)]"
  define R where "R = map (\<lambda>j. v ! nat (int q + int j + 1)) [0..<nat (int r - int q)]"
  have s1: "nat (int q - int p + 1) = q - p + 1" using assms by simp
  have s2: "nat (int r - int q) = r - q" using assms by simp
  have b1: "p + (q - p + 1) \<le> length v" using assms by simp
  have b2: "q + 1 + (r - q) \<le> length v" using assms by simp
  have lL: "length L = q - p + 1" unfolding L_def s1 by (simp del: upt_Suc)
  have lR: "length R = r - q" unfolding R_def s2 by (simp del: upt_Suc)
  have L: "L = seg v p (q - p + 1)"
  proof (rule nth_equalityI)
    show "length L = length (seg v p (q - p + 1))" using lL seg_length[OF b1] by simp
  next
    fix i assume "i < length L"
    then have i: "i < q - p + 1" using lL by simp
    have "L ! i = v ! (p + i)"
      unfolding L_def s1 using i by (simp del: upt_Suc add: nat_int_add)
    then show "L ! i = seg v p (q - p + 1) ! i" using seg_nth[OF i b1] by simp
  qed
  have R: "R = seg v (q + 1) (r - q)"
  proof (rule nth_equalityI)
    show "length R = length (seg v (q + 1) (r - q))" using lR seg_length[OF b2] by simp
  next
    fix j assume "j < length R"
    then have j: "j < r - q" using lR by simp
    have "nat (int q + int j + 1) = q + 1 + j" by simp
    then have "R ! j = v ! (q + 1 + j)"
      unfolding R_def s2 using j by (simp del: upt_Suc)
    then show "R ! j = seg v (q + 1) (r - q) ! j" using seg_nth[OF j b2] by simp
  qed
  have e: "p + (q - p + 1) + (r - q) = r + 1" using assms by simp
  have "finish L R (merge_loop L R v (int r) 0 0 (int p))
          = take p v @ lmerge (drop 0 L) (drop 0 R) @ drop (p + (q - p + 1) + (r - q)) v"
  proof (rule merge_loop_eq)
    show "0 + (q - p + 1) = length L" using lL by simp
    show "0 + (r - q) = length R" using lR by simp
    show "p + (q - p + 1) + (r - q) \<le> length v" unfolding e using assms by simp
    show "int (p + (q - p + 1) + (r - q)) \<le> int r + 1" unfolding e by simp
  qed
  moreover have "merge v (int p) (int q) (int r) = finish L R (merge_loop L R v (int r) 0 0 (int p))"
    unfolding merge_def finish_def L_def R_def Let_def by (simp split: prod.splits)
  ultimately show ?thesis unfolding e using L R by simp
qed


lemma mset_lmerge: "mset (lmerge xs ys) = mset xs + mset ys"
  by (induction xs ys rule: lmerge.induct) simp_all

lemma set_lmerge: "set (lmerge xs ys) = set xs \<union> set ys"
  by (induction xs ys rule: lmerge.induct) auto

lemma desc_Cons: "desc (x # xs) \<longleftrightarrow> (\<forall>y \<in> set xs. psize y \<le> psize x) \<and> desc xs"
  by (simp add: desc_def)

lemma desc_lmerge: "desc xs \<Longrightarrow> desc ys \<Longrightarrow> desc (lmerge xs ys)"
proof (induction xs ys rule: lmerge.induct)
  case (1 x xs y ys)
  then show ?case by (auto simp: desc_Cons set_lmerge)
qed simp_all

lemma filter_lmerge:
  "desc xs \<Longrightarrow> desc ys \<Longrightarrow>
   filter (\<lambda>c. psize c = k) (lmerge xs ys)
     = filter (\<lambda>c. psize c = k) xs @ filter (\<lambda>c. psize c = k) ys"
proof (induction xs ys rule: lmerge.induct)
  case (1 x xs y ys)
  show ?case
  proof (cases "psize y \<le> psize x")
    case True
    then show ?thesis using 1 by (simp add: desc_Cons)
  next
    case False
    have none: "psize y = k \<Longrightarrow> filter (\<lambda>c. psize c = k) (x # xs) = []"
      using False 1(3) by (auto simp: desc_Cons filter_empty_conv)
    have "filter (\<lambda>c. psize c = k) (lmerge (x # xs) (y # ys))
            = filter (\<lambda>c. psize c = k) (y # lmerge (x # xs) ys)"
      using False by simp
    also have "\<dots> = filter (\<lambda>c. psize c = k) [y] @ filter (\<lambda>c. psize c = k) (x # xs)
                     @ filter (\<lambda>c. psize c = k) ys"
      using 1(2)[OF False] 1(3,4) by (simp add: desc_Cons)
    also have "\<dots> = filter (\<lambda>c. psize c = k) (x # xs) @ filter (\<lambda>c. psize c = k) (y # ys)"
      using none by (cases "psize y = k") simp_all
    finally show ?thesis .
  qed
qed simp_all

lemma stable_sorted_lmerge:
  assumes "stable_sorted S1 X" "stable_sorted S2 Y"
  shows "stable_sorted (lmerge S1 S2) (X @ Y)"
  using assms by (simp add: stable_sorted_def desc_lmerge mset_lmerge filter_lmerge)

lemma stable_sorted_single: "stable_sorted [x] [x]"
  by (simp add: stable_sorted_def desc_def)

lemma stable_sorted_length: "stable_sorted S X \<Longrightarrow> length S = length X"
  by (metis stable_sorted_def size_mset)

lemma merge_parts:
  assumes "X \<noteq> []" "Y \<noteq> []"
  shows "merge (A @ X @ Y @ B) (int (length A)) (int (length A + length X) - 1)
           (int (length A + length X + length Y) - 1) = A @ lmerge X Y @ B"
proof -
  define p where "p = length A"
  define q where "q = length A + length X - 1"
  define r where "r = length A + length X + length Y - 1"
  obtain nx ny where lx: "length X = Suc nx" and ly: "length Y = Suc ny"
    using assms by (cases X; cases Y) auto
  have pq: "p \<le> q" and qr: "q < r" and rv: "r < length (A @ X @ Y @ B)"
    by (simp_all add: p_def q_def r_def lx ly)
  have q1: "q + 1 = length A + length X" and r1: "r + 1 = length A + length X + length Y"
    and n1: "q - p + 1 = length X" and n2: "r - q = length Y"
    by (simp_all add: p_def q_def r_def lx ly)
  have iq: "int (length A + length X) - 1 = int q" by (simp add: q_def lx)
  have ir: "int (length A + length X + length Y) - 1 = int r" by (simp add: r_def ly)
  have t: "take p (A @ X @ Y @ B) = A" by (simp add: p_def)
  have sx: "seg (A @ X @ Y @ B) p (q - p + 1) = X" unfolding n1 by (simp add: seg_def p_def)
  have sy: "seg (A @ X @ Y @ B) (q + 1) (r - q) = Y" unfolding n2 q1 by (simp add: seg_def)
  have d: "drop (r + 1) (A @ X @ Y @ B) = B" unfolding r1 by simp
  have "merge (A @ X @ Y @ B) (int p) (int q) (int r) = A @ lmerge X Y @ B"
    using merge_eq[OF pq qr rv] by (simp only: t sx sy d)
  then show ?thesis by (simp only: iq ir p_def)
qed

lemma merge_sort_parts:
  "X \<noteq> [] \<Longrightarrow>
   \<exists>S. merge_sort (A @ X @ B) (int (length A)) (int (length A + length X) - 1) = A @ S @ B
        \<and> stable_sorted S X"
proof (induction "length X" arbitrary: X A B rule: less_induct)
  case less
  define n where "n = length X"
  have n0: "0 < n" using less.prems by (simp add: n_def)
  show ?case
  proof (cases "n = 1")
    case True
    then obtain x where X: "X = [x]" unfolding n_def by (cases X) auto
    have "merge_sort (A @ X @ B) (int (length A)) (int (length A + length X) - 1) = A @ X @ B"
      unfolding X by (subst merge_sort.simps) simp
    then show ?thesis using X stable_sorted_single by auto
  next
    case False
    then have n2: "2 \<le> n" using n0 by simp
    define h where "h = (n + 1) div 2"
    define X1 where "X1 = take h X"
    define X2 where "X2 = drop h X"
    have h: "0 < h" "h < n" using n2 by (simp_all add: h_def)
    have X: "X = X1 @ X2" by (simp add: X1_def X2_def)
    have l1: "length X1 = h" using h by (simp add: X1_def n_def)
    have l2: "length X2 = n - h" by (simp add: X2_def n_def)
    have ne: "X1 \<noteq> []" "X2 \<noteq> []" using l1 l2 h by auto
    have lt: "length X1 < length X" "length X2 < length X" using l1 l2 h by (simp_all add: n_def)
    have q: "(int (length A) + (int (length A + length X) - 1)) div 2 = int (length A + h) - 1"
    proof -
      have "(int (length A) + (int (length A + n) - 1)) div 2 = int (length A) + (int n - 1) div 2"
        by simp
      moreover have "(int n - 1) div 2 = int h - 1" using n0 unfolding h_def by (simp add: zdiv_int)
      ultimately show ?thesis by (simp add: n_def)
    qed
    obtain S1 where S1:
      "merge_sort (A @ X1 @ (X2 @ B)) (int (length A)) (int (length A + length X1) - 1)
         = A @ S1 @ (X2 @ B)" "stable_sorted S1 X1"
      using less.hyps[OF lt(1) ne(1), of A "X2 @ B"] by blast
    have ls1: "length S1 = h" using stable_sorted_length[OF S1(2)] l1 by simp
    obtain S2 where S2:
      "merge_sort ((A @ S1) @ X2 @ B) (int (length (A @ S1))) (int (length (A @ S1) + length X2) - 1)
         = (A @ S1) @ S2 @ B" "stable_sorted S2 X2"
      using less.hyps[OF lt(2) ne(2), of "A @ S1" B] by blast
    have ls2: "length S2 = n - h" using stable_sorted_length[OF S2(2)] l2 by simp
    have sne: "S1 \<noteq> []" "S2 \<noteq> []" using ls1 ls2 h by auto
    have plt: "int (length A) < int (length A + length X) - 1" using n2 by (simp add: n_def)
    have e1: "int (length A + length X1) - 1 = int (length A + h) - 1" using l1 by simp
    have e2: "int (length A + h) - 1 + 1 = int (length (A @ S1))" using ls1 by simp
    have e3: "int (length (A @ S1) + length X2) - 1 = int (length A + length X) - 1"
      using ls1 l2 h by (simp add: n_def)
    have e4: "int (length A + length S1) - 1 = int (length A + h) - 1" using ls1 by simp
    have e5: "int (length A + length S1 + length S2) - 1 = int (length A + length X) - 1"
      using ls1 ls2 h by (simp add: n_def)
    have "merge_sort (A @ X @ B) (int (length A)) (int (length A + length X) - 1)
            = merge (A @ S1 @ S2 @ B) (int (length A)) (int (length A + h) - 1)
                (int (length A + length X) - 1)"
      apply (subst merge_sort.simps)
      apply (simp only: plt if_True Let_def q)
      apply (simp only: X append_assoc)
      apply (simp only: S1(1)[unfolded e1] e2)
      apply (simp only: X[symmetric])
      apply (simp only: S2(1)[unfolded e3 append_assoc])
      done
    also have "\<dots> = A @ lmerge S1 S2 @ B"
      using merge_parts[OF sne, of A B] unfolding e4 e5 by simp
    finally show ?thesis
      using stable_sorted_lmerge[OF S1(2) S2(2)] X by auto
  qed
qed

lemma merge_sort_full:
  "stable_sorted (merge_sort v 0 (int (length v) - 1)) v"
proof (cases "v = []")
  case True
  have "merge_sort [] 0 (- 1) = []" by (subst merge_sort.simps) simp
  then show ?thesis using True by (simp add: stable_sorted_def desc_def)
next
  case False
  then show ?thesis using merge_sort_parts[OF False, of "[]" "[]"] by auto
qed


text \<open>
  C7. For every list of candidates, \<^verbatim>\<open>merge_sort\<close> over the whole range of indices,
  which is the call that \<^verbatim>\<open>GetNumberAndTypeOfRus\<close> makes for each class, gives the
  candidates in descending order of the size of the pending frame; the result is a
  permutation of the list, and the candidates of equal size keep the order they had.
  The result is a function of the list, so equal lists give equal results.
\<close>

theorem merge_sort_stable_descending:
  "sort_class v = merge_sort v 0 (int (length v) - 1)
   \<and> sorted_wrt (\<lambda>x y. psize x \<ge> psize y) (merge_sort v 0 (int (length v) - 1))
   \<and> mset (merge_sort v 0 (int (length v) - 1)) = mset v
   \<and> (\<forall>k. filter (\<lambda>c. psize c = k) (merge_sort v 0 (int (length v) - 1))
            = filter (\<lambda>c. psize c = k) v)"
  using merge_sort_full[of v] by (simp add: stable_sorted_def desc_def sort_class_def)

section \<open>Properties of \<^verbatim>\<open>GetNumberAndTypeOfRus\<close>\<close>

subsection \<open>The sorted classes\<close>

lemma sort_class_length: "length (sort_class xs) = length xs"
  unfolding sort_class_def using merge_sort_full[of xs] by (rule stable_sorted_length)

subsection \<open>The degenerate case\<close>

lemma selectRu_Some:
  "selectRu G bw n = Some (t, k) \<Longrightarrow>
   \<exists>pre ru post. G = pre @ ru # post \<and> (\<forall>x \<in> set pre. \<not> qualifies bw n x)
      \<and> qualifies bw n ru \<and> t = snd (fst ru)"
proof (induction G)
  case Nil
  then show ?case by simp
next
  case (Cons g G)
  show ?case
  proof (cases "qualifies bw n g")
    case True
    then have "t = snd (fst g)" using Cons.prems by (auto simp: qualifies_def split: if_splits)
    then have "g # G = [] @ g # G \<and> (\<forall>x \<in> set []. \<not> qualifies bw n x)
      \<and> qualifies bw n g \<and> t = snd (fst g)" using True by simp
    then show ?thesis by blast
  next
    case False
    then have "selectRu G bw n = Some (t, k)" using Cons.prems by (auto simp: qualifies_def split: if_splits)
    then obtain pre ru post where p: "G = pre @ ru # post" "\<forall>x \<in> set pre. \<not> qualifies bw n x"
      "qualifies bw n ru" "t = snd (fst ru)" using Cons.IH by blast
    then have "g # G = (g # pre) @ ru # post \<and> (\<forall>x \<in> set (g # pre). \<not> qualifies bw n x)
      \<and> qualifies bw n ru \<and> t = snd (fst ru)" using False by simp
    then show ?thesis by blast
  qed
qed

lemma degenerateRuType_Inr:
  assumes "degenerateRuType G bw n = Inr t"
  shows "(\<exists>pre ru post. G = pre @ ru # post \<and> (\<forall>x \<in> set pre. \<not> qualifies bw n x)
            \<and> qualifies bw n ru \<and> t = snd (fst ru))
         \<or> (bw = 160 \<and> n = 1 \<and> t = RU_2x996_TONE)"
proof (cases "selectRu G bw n")
  case None
  then show ?thesis using assms by (simp add: degenerateRuType_def split: if_splits)
next
  case (Some r)
  obtain t' k where r: "r = (t', k)" by (cases r)
  show ?thesis
  proof (cases "k = 0")
    case True
    then show ?thesis using assms Some r by (simp add: degenerateRuType_def split: if_splits)
  next
    case False
    then have "t = t'" using assms Some r by (simp add: degenerateRuType_def)
    then show ?thesis using selectRu_Some[of G bw n t k] Some r by simp
  qed
qed

lemma uniformEntries_Inr:
  "uniformEntries G bw t = Inr rus \<longleftrightarrow>
     (\<exists>k. map_of G (bw, t) = Some k \<and> rus = map (\<lambda>ruIndex. (t, ruIndex)) [1..<Suc k])"
  by (auto simp: uniformEntries_def split: option.splits)

lemma degenerate_case:
  assumes "classify T batch = (onoff0, bulksend0, http0)"
    and "bulksend0 = [] \<or> length onoff0 + length bulksend0 + length http0 \<le> 1"
  shows "GetNumberAndTypeOfRus T bw n batch
           = bindE (degenerateRuType (groups T) bw n) (\<lambda>t.
             bindE (uniformEntries (groups T) bw t) (\<lambda>entries.
               Inr (entries, sort_class onoff0 @ sort_class bulksend0 @ sort_class http0)))"
proof -
  have "int (length (sort_class bulksend0)) = 0
              \<or> int (length (sort_class onoff0)) + int (length (sort_class bulksend0))
                  + int (length (sort_class http0)) \<le> 1"
    using assms(2) by (auto simp: sort_class_length)
  then show ?thesis
    unfolding GetNumberAndTypeOfRus_def assms(1) prod.case Let_def by simp
qed

lemma standard_20:
  assumes "1 \<le> n"
  shows "\<exists>t k. degenerateRuType heRuSubcarrierGroups 20 n = Inr t
     \<and> map_of heRuSubcarrierGroups (20, t) = Some k \<and> 1 \<le> k \<and> k \<le> n
     \<and> (\<forall>t' k'. map_of heRuSubcarrierGroups (20, t') = Some k' \<and> k' \<le> n \<longrightarrow> k' \<le> k)"
proof -
  consider "9 \<le> n" | "4 \<le> n" "n < 9" | "2 \<le> n" "n < 4" | "n = 1"
    using assms by linarith
  then show ?thesis
  proof cases
    case 1
    then show ?thesis
      by (intro exI[of _ RU_26_TONE] exI[of _ 9])
         (auto simp: degenerateRuType_def heRuSubcarrierGroups_def split: if_splits)
  next
    case 2
    then show ?thesis
      by (intro exI[of _ RU_52_TONE] exI[of _ 4])
         (auto simp: degenerateRuType_def heRuSubcarrierGroups_def split: if_splits)
  next
    case 3
    then show ?thesis
      by (intro exI[of _ RU_106_TONE] exI[of _ 2])
         (auto simp: degenerateRuType_def heRuSubcarrierGroups_def split: if_splits)
  next
    case 4
    then show ?thesis
      by (intro exI[of _ RU_242_TONE] exI[of _ 1])
         (auto simp: degenerateRuType_def heRuSubcarrierGroups_def split: if_splits)
  qed
qed

lemma standard_40:
  assumes "1 \<le> n"
  shows "\<exists>t k. degenerateRuType heRuSubcarrierGroups 40 n = Inr t
     \<and> map_of heRuSubcarrierGroups (40, t) = Some k \<and> 1 \<le> k \<and> k \<le> n
     \<and> (\<forall>t' k'. map_of heRuSubcarrierGroups (40, t') = Some k' \<and> k' \<le> n \<longrightarrow> k' \<le> k)"
proof -
  consider "18 \<le> n" | "8 \<le> n" "n < 18" | "4 \<le> n" "n < 8" | "2 \<le> n" "n < 4" | "n = 1"
    using assms by linarith
  then show ?thesis
  proof cases
    case 1
    then show ?thesis
      by (intro exI[of _ RU_26_TONE] exI[of _ 18])
         (auto simp: degenerateRuType_def heRuSubcarrierGroups_def split: if_splits)
  next
    case 2
    then show ?thesis
      by (intro exI[of _ RU_52_TONE] exI[of _ 8])
         (auto simp: degenerateRuType_def heRuSubcarrierGroups_def split: if_splits)
  next
    case 3
    then show ?thesis
      by (intro exI[of _ RU_106_TONE] exI[of _ 4])
         (auto simp: degenerateRuType_def heRuSubcarrierGroups_def split: if_splits)
  next
    case 4
    then show ?thesis
      by (intro exI[of _ RU_242_TONE] exI[of _ 2])
         (auto simp: degenerateRuType_def heRuSubcarrierGroups_def split: if_splits)
  next
    case 5
    then show ?thesis
      by (intro exI[of _ RU_484_TONE] exI[of _ 1])
         (auto simp: degenerateRuType_def heRuSubcarrierGroups_def split: if_splits)
  qed
qed

lemma standard_80:
  assumes "1 \<le> n"
  shows "\<exists>t k. degenerateRuType heRuSubcarrierGroups 80 n = Inr t
     \<and> map_of heRuSubcarrierGroups (80, t) = Some k \<and> 1 \<le> k \<and> k \<le> n
     \<and> (\<forall>t' k'. map_of heRuSubcarrierGroups (80, t') = Some k' \<and> k' \<le> n \<longrightarrow> k' \<le> k)"
proof -
  consider "37 \<le> n" | "16 \<le> n" "n < 37" | "8 \<le> n" "n < 16" | "4 \<le> n" "n < 8" | "2 \<le> n" "n < 4" | "n = 1"
    using assms by linarith
  then show ?thesis
  proof cases
    case 1
    then show ?thesis
      by (intro exI[of _ RU_26_TONE] exI[of _ 37])
         (auto simp: degenerateRuType_def heRuSubcarrierGroups_def split: if_splits)
  next
    case 2
    then show ?thesis
      by (intro exI[of _ RU_52_TONE] exI[of _ 16])
         (auto simp: degenerateRuType_def heRuSubcarrierGroups_def split: if_splits)
  next
    case 3
    then show ?thesis
      by (intro exI[of _ RU_106_TONE] exI[of _ 8])
         (auto simp: degenerateRuType_def heRuSubcarrierGroups_def split: if_splits)
  next
    case 4
    then show ?thesis
      by (intro exI[of _ RU_242_TONE] exI[of _ 4])
         (auto simp: degenerateRuType_def heRuSubcarrierGroups_def split: if_splits)
  next
    case 5
    then show ?thesis
      by (intro exI[of _ RU_484_TONE] exI[of _ 2])
         (auto simp: degenerateRuType_def heRuSubcarrierGroups_def split: if_splits)
  next
    case 6
    then show ?thesis
      by (intro exI[of _ RU_996_TONE] exI[of _ 1])
         (auto simp: degenerateRuType_def heRuSubcarrierGroups_def split: if_splits)
  qed
qed

lemma standard_table:
  assumes "bw \<in> {20, 40, 80}" "1 \<le> n"
  shows "\<exists>t k. degenerateRuType heRuSubcarrierGroups bw n = Inr t
     \<and> map_of heRuSubcarrierGroups (bw, t) = Some k \<and> 1 \<le> k \<and> k \<le> n
     \<and> (\<forall>t' k'. map_of heRuSubcarrierGroups (bw, t') = Some k' \<and> k' \<le> n \<longrightarrow> k' \<le> k)"
  using assms standard_20[of n] standard_40[of n] standard_80[of n] by auto

lemma standard_160: "degenerateRuType heRuSubcarrierGroups 160 1 = Inr RU_2x996_TONE"
  by (simp add: degenerateRuType_def heRuSubcarrierGroups_def)

text \<open>
  C4 does not hold as it is stated. The loop takes the first definition, in the order of
  the table, with at most the requested number of RUs: on 20 MHz with four stations this
  is the 52-tone RU, although the 242-tone RU, with one RU, also has at most four and is
  wider. And on 160 MHz with one station requested, for a single candidate as for the
  empty batch of the call in \<^verbatim>\<open>SelectTxFormat\<close>, there is no allocation: \<^verbatim>\<open>at\<close>
  throws, since the table has no definition for 160 MHz.
\<close>

theorem degenerate_branch_not_widest:
  "classify exTables [] = ([], [], [])
   \<and> GetNumberAndTypeOfRus exTables 20 4 []
       = Inr ([(RU_52_TONE, 1), (RU_52_TONE, 2), (RU_52_TONE, 3), (RU_52_TONE, 4)], [])
   \<and> map_of (groups exTables) (20, RU_242_TONE) = Some 1 \<and> (1 :: nat) \<le> 4
   \<and> ruTones RU_52_TONE < ruTones RU_242_TONE
   \<and> classify exTables [cand 30 100] = ([cand 30 100], [], [])
   \<and> GetNumberAndTypeOfRus exTables 160 1 [cand 30 100] = Inl OutOfRange
   \<and> GetNumberAndTypeOfRus exTables 160 1 [] = Inl OutOfRange"
  by code_simp

text \<open>
  C4, amended. For every batch in which the class \<^verbatim>\<open>bulksend\<close> is empty or the three
  classes have at most one candidate together: when \<^verbatim>\<open>GetNumberAndTypeOfRus\<close> returns,
  the candidates are the three sorted classes in the order \<^verbatim>\<open>onoff\<close>, \<^verbatim>\<open>bulksend\<close>,
  \<^verbatim>\<open>http\<close>, and the allocation has one entry for each RU that the table defines for the
  bandwidth and the selected RU type, with the indices from 1. The selected type is that
  of the first definition, in the order of the table, that is for the bandwidth with at
  most \<open>n\<close> RUs (or, on 160 MHz, for 80 MHz with twice its number at most \<open>n\<close>), and
  it is the RU of the whole channel only on 160 MHz with one station requested. On the
  table of IEEE 802.11ax, for 20, 40 and 80 MHz and at least one station requested, the
  function returns, and the selected type is the one with the largest number of RUs
  that is at most \<open>n\<close> (the narrowest such type); with one station requested the
  allocation has exactly one entry. On that table the type selected on 160 MHz for one
  station is the RU of the whole channel.
\<close>

theorem degenerate_branch:
  assumes "classify T batch = (onoff0, bulksend0, http0)"
    and "bulksend0 = [] \<or> length onoff0 + length bulksend0 + length http0 \<le> 1"
  shows "(\<forall>rus d. GetNumberAndTypeOfRus T bw n batch = Inr (rus, d) \<longrightarrow>
            d = sort_class onoff0 @ sort_class bulksend0 @ sort_class http0
            \<and> (\<exists>t k. map_of (groups T) (bw, t) = Some k
                  \<and> rus = map (\<lambda>ruIndex. (t, ruIndex)) [1..<Suc k]
                  \<and> ((\<exists>pre ru post. groups T = pre @ ru # post
                          \<and> (\<forall>x \<in> set pre. \<not> qualifies bw n x)
                          \<and> qualifies bw n ru \<and> t = snd (fst ru))
                      \<or> (bw = 160 \<and> n = 1 \<and> t = RU_2x996_TONE))))
       \<and> (groups T = heRuSubcarrierGroups \<and> bw \<in> {20, 40, 80} \<and> 1 \<le> n \<longrightarrow>
            (\<exists>t k. GetNumberAndTypeOfRus T bw n batch
                      = Inr (map (\<lambda>ruIndex. (t, ruIndex)) [1..<Suc k],
                             sort_class onoff0 @ sort_class bulksend0 @ sort_class http0)
                  \<and> map_of heRuSubcarrierGroups (bw, t) = Some k \<and> 1 \<le> k \<and> k \<le> n
                  \<and> (\<forall>t' k'. map_of heRuSubcarrierGroups (bw, t') = Some k' \<and> k' \<le> n
                                \<longrightarrow> k' \<le> k)))
       \<and> (groups T = heRuSubcarrierGroups \<and> bw \<in> {20, 40, 80} \<longrightarrow>
            (\<exists>t. GetNumberAndTypeOfRus T bw 1 batch
                    = Inr ([(t, 1)],
                           sort_class onoff0 @ sort_class bulksend0 @ sort_class http0)))
       \<and> (groups T = heRuSubcarrierGroups \<longrightarrow>
            degenerateRuType (groups T) 160 1 = Inr RU_2x996_TONE)"
proof -
  note G = degenerate_case[OF assms, of bw n]
  have A: "\<forall>rus d. GetNumberAndTypeOfRus T bw n batch = Inr (rus, d) \<longrightarrow>
            d = sort_class onoff0 @ sort_class bulksend0 @ sort_class http0
            \<and> (\<exists>t k. map_of (groups T) (bw, t) = Some k
                  \<and> rus = map (\<lambda>ruIndex. (t, ruIndex)) [1..<Suc k]
                  \<and> ((\<exists>pre ru post. groups T = pre @ ru # post
                          \<and> (\<forall>x \<in> set pre. \<not> qualifies bw n x)
                          \<and> qualifies bw n ru \<and> t = snd (fst ru))
                      \<or> (bw = 160 \<and> n = 1 \<and> t = RU_2x996_TONE)))"
  proof (intro allI impI)
    fix rus d
    assume "GetNumberAndTypeOfRus T bw n batch = Inr (rus, d)"
    then obtain t where t: "degenerateRuType (groups T) bw n = Inr t"
      and e: "uniformEntries (groups T) bw t = Inr rus"
      and d: "d = sort_class onoff0 @ sort_class bulksend0 @ sort_class http0"
      unfolding G by (auto simp: bindE_eq_Inr)
    obtain k where k: "map_of (groups T) (bw, t) = Some k"
      "rus = map (\<lambda>ruIndex. (t, ruIndex)) [1..<Suc k]"
      using e unfolding uniformEntries_Inr by blast
    show "d = sort_class onoff0 @ sort_class bulksend0 @ sort_class http0
            \<and> (\<exists>t k. map_of (groups T) (bw, t) = Some k
                  \<and> rus = map (\<lambda>ruIndex. (t, ruIndex)) [1..<Suc k]
                  \<and> ((\<exists>pre ru post. groups T = pre @ ru # post
                          \<and> (\<forall>x \<in> set pre. \<not> qualifies bw n x)
                          \<and> qualifies bw n ru \<and> t = snd (fst ru))
                      \<or> (bw = 160 \<and> n = 1 \<and> t = RU_2x996_TONE)))"
      using d k degenerateRuType_Inr[OF t] by blast
  qed
  have B: "\<exists>t k. GetNumberAndTypeOfRus T bw m batch
                      = Inr (map (\<lambda>ruIndex. (t, ruIndex)) [1..<Suc k],
                             sort_class onoff0 @ sort_class bulksend0 @ sort_class http0)
                  \<and> map_of heRuSubcarrierGroups (bw, t) = Some k \<and> 1 \<le> k \<and> k \<le> m
                  \<and> (\<forall>t' k'. map_of heRuSubcarrierGroups (bw, t') = Some k' \<and> k' \<le> m
                                \<longrightarrow> k' \<le> k)"
    if h: "groups T = heRuSubcarrierGroups" "bw \<in> {20, 40, 80}" "1 \<le> m" for m
  proof -
    obtain t k where tk: "degenerateRuType heRuSubcarrierGroups bw m = Inr t"
      "map_of heRuSubcarrierGroups (bw, t) = Some k" "1 \<le> k" "k \<le> m"
      "\<forall>t' k'. map_of heRuSubcarrierGroups (bw, t') = Some k' \<and> k' \<le> m \<longrightarrow> k' \<le> k"
      using standard_table[OF h(2,3)] by blast
    have "GetNumberAndTypeOfRus T bw m batch
            = Inr (map (\<lambda>ruIndex. (t, ruIndex)) [1..<Suc k],
                   sort_class onoff0 @ sort_class bulksend0 @ sort_class http0)"
      unfolding degenerate_case[OF assms, of bw m] h(1) using tk(1,2)
      by (simp add: uniformEntries_def del: upt_Suc)
    then show ?thesis using tk by blast
  qed
  have C: "\<exists>t. GetNumberAndTypeOfRus T bw 1 batch
                    = Inr ([(t, 1)],
                           sort_class onoff0 @ sort_class bulksend0 @ sort_class http0)"
    if h: "groups T = heRuSubcarrierGroups" "bw \<in> {20, 40, 80}"
  proof -
    obtain t k where tk: "GetNumberAndTypeOfRus T bw 1 batch
                      = Inr (map (\<lambda>ruIndex. (t, ruIndex)) [1..<Suc k],
                             sort_class onoff0 @ sort_class bulksend0 @ sort_class http0)"
       "1 \<le> k" "k \<le> 1"
      using B[OF h, of 1] by auto
    then have "k = 1" by simp
    then show ?thesis using tk(1) by auto
  qed
  show ?thesis using A B C standard_160 by simp
qed

text \<open>A single candidate of the class \<^verbatim>\<open>onoff\<close> on 40 MHz.\<close>

theorem degenerate_branch_witness:
  "classify exTables [cand 30 100] = ([cand 30 100], [], [])
   \<and> GetNumberAndTypeOfRus exTables 40 1 [cand 30 100] = Inr ([(RU_484_TONE, 1)], [cand 30 100])"
proof -
  have h1: "classify exTables [cand 30 100] = ([cand 30 100], [], [])" by code_simp
  have h2: "([] :: candidate list) = []
             \<or> length [cand 30 100] + length ([] :: candidate list) + length ([] :: candidate list) \<le> 1"
    by simp
  have g: "groups exTables = heRuSubcarrierGroups \<and> (40 :: nat) \<in> {20, 40, 80}"
    by (simp add: exTables_def)
  obtain t where t: "GetNumberAndTypeOfRus exTables 40 1 [cand 30 100]
           = Inr ([(t, 1)], sort_class [cand 30 100] @ sort_class [] @ sort_class [])"
    using degenerate_branch[OF h1 h2, of 40 1] g by blast
  have "GetNumberAndTypeOfRus exTables 40 1 [cand 30 100] = Inr ([(RU_484_TONE, 1)], [cand 30 100])"
    by code_simp
  then show ?thesis using h1 t by simp
qed

subsection \<open>The overflow case\<close>

text \<open>
  C5 does not hold as it is stated: the RU type of the overflow case is that of the first
  entry of the table, which on 20 MHz is the 26-tone RU, the narrowest of the four that
  the table defines for 20 MHz, and not the widest.
\<close>

theorem overflow_branch_not_widest:
  "classify exTables exOverflowBatch
     = (map (\<lambda>a. cand a 100) [30..<38], map (\<lambda>a. cand a 100) [1..<9], [])
   \<and> GetNumberAndTypeOfRus exTables 20 16 exOverflowBatch
       = Inr (map (\<lambda>ruIndex. (RU_26_TONE, ruIndex)) [1..<10], exOverflowBatch)
   \<and> map_of (groups exTables) (20, RU_242_TONE) = Some 1
   \<and> ruTones RU_26_TONE < ruTones RU_242_TONE"
  by code_simp

text \<open>
  C5, amended. For every batch that is not in the degenerate case and has more than 7
  candidates of the class \<^verbatim>\<open>onoff\<close>, whatever the class \<^verbatim>\<open>http\<close> holds, the overflow
  case is taken: the function is the copy of lines 669--679 followed by the emission of
  lines 680--694 for the RU type of the first entry of the table (not the widest type).
  When the class \<^verbatim>\<open>bulksend\<close> has at least as many candidates as \<^verbatim>\<open>onoff\<close> and the
  table defines that type for the bandwidth with no more RUs than the number of stations
  requested, the allocation has one entry for each of these RUs, with the indices from
  1, and the candidates are the sorted class \<^verbatim>\<open>onoff\<close>, then as many candidates of the
  sorted class \<^verbatim>\<open>bulksend\<close> as \<^verbatim>\<open>onoff\<close> has, then the sorted class \<^verbatim>\<open>http\<close>.
\<close>

theorem overflow_branch:
  assumes "classify T batch = (onoff0, bulksend0, http0)"
    and "bulksend0 \<noteq> []"
    and "7 < length onoff0"
  shows "GetNumberAndTypeOfRus T bandwidth nStations batch
           = bindE (readN (int (length onoff0)) (sort_class bulksend0)) (\<lambda>fromBulksend.
             bindE (case groups T of
                      [] \<Rightarrow> Inl OutOfRange
                    | ru # rest \<Rightarrow> uniformEntries (groups T) bandwidth (snd (fst ru)))
               (\<lambda>entries. Inr (entries, sort_class onoff0 @ fromBulksend @ sort_class http0)))
       \<and> (\<forall>ru others k.
            length onoff0 \<le> length bulksend0 \<and> groups T = ru # others
            \<and> map_of (groups T) (bandwidth, snd (fst ru)) = Some k \<and> k \<le> nStations \<longrightarrow>
            GetNumberAndTypeOfRus T bandwidth nStations batch
              = Inr (map (\<lambda>ruIndex. (snd (fst ru), ruIndex)) [1..<Suc k],
                     sort_class onoff0 @ take (length onoff0) (sort_class bulksend0)
                       @ sort_class http0))"
proof -
  have nd: "\<not> (int (length (sort_class bulksend0)) = 0
              \<or> int (length (sort_class onoff0)) + int (length (sort_class bulksend0))
                  + int (length (sort_class http0)) \<le> 1)"
    using assms(2,3) by (simp add: sort_class_length)
  have ov: "int (length (sort_class onoff0)) > 7" using assms(3) by (simp add: sort_class_length)
  have branch: "GetNumberAndTypeOfRus T bandwidth nStations batch
           = bindE (readN (int (length onoff0)) (sort_class bulksend0)) (\<lambda>fromBulksend.
             bindE (case groups T of
                      [] \<Rightarrow> Inl OutOfRange
                    | ru # rest \<Rightarrow> uniformEntries (groups T) bandwidth (snd (fst ru)))
               (\<lambda>entries. Inr (entries, sort_class onoff0 @ fromBulksend @ sort_class http0)))"
    unfolding GetNumberAndTypeOfRus_def assms(1) prod.case Let_def
    using nd ov by (simp add: sort_class_length)
  have emit: "GetNumberAndTypeOfRus T bandwidth nStations batch
              = Inr (map (\<lambda>ruIndex. (snd (fst ru), ruIndex)) [1..<Suc k],
                     sort_class onoff0 @ take (length onoff0) (sort_class bulksend0)
                       @ sort_class http0)"
    if le: "length onoff0 \<le> length bulksend0" and g: "groups T = ru # others"
      and k: "map_of (groups T) (bandwidth, snd (fst ru)) = Some k"
    for ru others k
  proof -
    have rd: "readN (int (length onoff0)) (sort_class bulksend0)
                = Inr (take (length onoff0) (sort_class bulksend0))"
      using le by (simp add: readN_def sort_class_length)
    have ue: "uniformEntries (groups T) bandwidth (snd (fst ru))
                = Inr (map (\<lambda>ruIndex. (snd (fst ru), ruIndex)) [1..<Suc k])"
      using k by (simp add: uniformEntries_def)
    have "(case groups T of
             [] \<Rightarrow> Inl OutOfRange
           | ru # rest \<Rightarrow> uniformEntries (groups T) bandwidth (snd (fst ru)))
          = Inr (map (\<lambda>ruIndex. (snd (fst ru), ruIndex)) [1..<Suc k])"
      using ue by (simp add: g)
    then show ?thesis unfolding branch rd by (simp del: upt_Suc)
  qed
  show ?thesis using branch emit by blast
qed

text \<open>
  Twenty candidates on 20 MHz, nine of the class \<^verbatim>\<open>onoff\<close> with frames of different
  sizes, ten of the class \<^verbatim>\<open>bulksend\<close> and one of the class \<^verbatim>\<open>http\<close>: nine entries,
  for the nine largest frames of the class \<^verbatim>\<open>onoff\<close> first.
\<close>

theorem overflow_branch_witness:
  "classify exTables exOverflowTwenty
     = (map (\<lambda>a. cand a (10 * a)) [30..<39], map (\<lambda>a. cand a 100) [1..<11], [cand 60 50])
   \<and> groups exTables = ((20, RU_26_TONE), 9) # tl (groups exTables)
   \<and> map_of (groups exTables) (20, RU_26_TONE) = Some 9
   \<and> GetNumberAndTypeOfRus exTables 20 20 exOverflowTwenty
       = Inr (map (\<lambda>ruIndex. (RU_26_TONE, ruIndex)) [1..<10],
              map (\<lambda>a. cand a (10 * a)) (rev [30..<39]) @ map (\<lambda>a. cand a 100) [1..<10]
                @ [cand 60 50])"
proof -
  have h1: "classify exTables exOverflowTwenty
     = (map (\<lambda>a. cand a (10 * a)) [30..<39], map (\<lambda>a. cand a 100) [1..<11], [cand 60 50])"
    by code_simp
  have h2: "map (\<lambda>a. cand a 100) [1..<11] \<noteq> []" by code_simp
  have h3: "7 < length (map (\<lambda>a. cand a (10 * a)) [30..<39])" by simp
  have h4: "length (map (\<lambda>a. cand a (10 * a)) [30..<39])
              \<le> length (map (\<lambda>a. cand a 100) [1..<11])"
    by simp
  have h5: "groups exTables = ((20, RU_26_TONE), 9) # tl (groups exTables)"
    by (simp add: exTables_def heRuSubcarrierGroups_def)
  have h6: "map_of (groups exTables) (20, snd (fst ((20 :: nat, RU_26_TONE), 9 :: nat))) = Some 9"
    by (simp add: exTables_def heRuSubcarrierGroups_def)
  have h7: "(9 :: nat) \<le> 20" by simp
  have r: "sort_class (map (\<lambda>a. cand a (10 * a)) [30..<39])
             @ take (length (map (\<lambda>a. cand a (10 * a)) [30..<39]))
                 (sort_class (map (\<lambda>a. cand a 100) [1..<11]))
             @ sort_class [cand 60 50]
           = map (\<lambda>a. cand a (10 * a)) (rev [30..<39]) @ map (\<lambda>a. cand a 100) [1..<10]
               @ [cand 60 50]"
    by code_simp
  have "GetNumberAndTypeOfRus exTables 20 20 exOverflowTwenty
       = Inr (map (\<lambda>ruIndex. (snd (fst ((20 :: nat, RU_26_TONE), 9 :: nat)), ruIndex)) [1..<Suc 9],
              sort_class (map (\<lambda>a. cand a (10 * a)) [30..<39])
                @ take (length (map (\<lambda>a. cand a (10 * a)) [30..<39]))
                    (sort_class (map (\<lambda>a. cand a 100) [1..<11]))
                @ sort_class [cand 60 50])"
    using overflow_branch[OF h1 h2 h3, of 20 20] h4 h5 h6 h7 by blast
  then have "GetNumberAndTypeOfRus exTables 20 20 exOverflowTwenty
       = Inr (map (\<lambda>ruIndex. (RU_26_TONE, ruIndex)) [1..<10],
              map (\<lambda>a. cand a (10 * a)) (rev [30..<39]) @ map (\<lambda>a. cand a 100) [1..<10]
                @ [cand 60 50])"
    unfolding r by (simp del: upt_Suc)
  then show ?thesis using h1 h5 h6 by simp
qed
subsection \<open>The mixed case\<close>

lemma reserve52_inv:
  "reserve52 a n s = (a', n', s') \<Longrightarrow>
     a' + 52 * n' = a + 52 * n \<and> n' + s' = n + s \<and> n \<le> n' \<and> (0 \<le> s \<longrightarrow> 0 \<le> s')"
proof (induction a n s rule: reserve52.induct)
  case (1 a n s)
  show ?case
  proof (cases "a \<ge> 52 \<and> s > 0")
    case True
    then have "reserve52 (a - 52) (n + 1) (s - 1) = (a', n', s')"
      using 1(2) by (subst (asm) reserve52.simps) simp
    then show ?thesis using 1(1)[OF True] True by simp
  next
    case False
    then show ?thesis using 1(2) by (subst (asm) reserve52.simps) auto
  qed
qed

lemma reserve26_inv:
  "reserve26 a n s = (a', n', s') \<Longrightarrow>
     a' + 26 * n' = a + 26 * n \<and> n' + s' = n + s \<and> n \<le> n' \<and> (0 \<le> s \<longrightarrow> 0 \<le> s')"
proof (induction a n s rule: reserve26.induct)
  case (1 a n s)
  show ?case
  proof (cases "a \<ge> 26 \<and> s > 0")
    case True
    then have "reserve26 (a - 26) (n + 1) (s - 1) = (a', n', s')"
      using 1(2) by (subst (asm) reserve26.simps) simp
    then show ?thesis using 1(1)[OF True] True by simp
  next
    case False
    then show ?thesis using 1(2) by (subst (asm) reserve26.simps) auto
  qed
qed

lemma reserve_inv:
  assumes "reserve s2 s3 s4 = (a, al106, al52, al26)" "0 \<le> s4"
  shows "a + 106 * al106 + 52 * al52 + 26 * (al26 - s2) = 242 - 26 * s2"
    and "al106 = 0 \<or> al106 = 1"
    and "al106 = 0 \<Longrightarrow> 0 < s3 \<Longrightarrow> 242 - 26 * s2 < 106"
    and "s2 \<le> al26" and "al26 \<le> s2 + s4"
proof -
  define a0 where "a0 = 242 - 26 * s2"
  define x where "x = (if a0 \<ge> 106 \<and> s3 > 0 then (1 :: int, a0 - 106, s3 - 1) else (0, a0, s3))"
  obtain b a1 s3a where x: "x = (b, a1, s3a)" by (cases x)
  obtain a2 n52 s3b where r52: "reserve52 a1 0 s3a = (a2, n52, s3b)" by (cases "reserve52 a1 0 s3a")
  obtain a3 n26 s4a where r26: "reserve26 a2 s2 s4 = (a3, n26, s4a)" by (cases "reserve26 a2 s2 s4")
  have res: "reserve s2 s3 s4 = (a3, b, n52, n26)"
    unfolding reserve_def Let_def a0_def[symmetric] x_def[symmetric] x prod.case r52 r26 by simp
  then have eq: "a = a3" "al106 = b" "al52 = n52" "al26 = n26" using assms(1) by simp_all
  have i52: "a2 + 52 * n52 = a1" using reserve52_inv[OF r52] by simp
  have i26: "a3 + 26 * n26 = a2 + 26 * s2" "n26 + s4a = s2 + s4" "s2 \<le> n26" "0 \<le> s4a"
    using reserve26_inv[OF r26] assms(2) by simp_all
  have bx: "(b = 1 \<and> a1 = a0 - 106 \<and> a0 \<ge> 106 \<and> s3 > 0) \<or> (b = 0 \<and> a1 = a0 \<and> \<not> (a0 \<ge> 106 \<and> s3 > 0))"
    using x unfolding x_def by (auto split: if_splits)
  show "a + 106 * al106 + 52 * al52 + 26 * (al26 - s2) = 242 - 26 * s2"
    using bx i52 i26 eq unfolding a0_def by auto
  show "al106 = 0 \<or> al106 = 1" using bx eq by auto
  show "al106 = 0 \<Longrightarrow> 0 < s3 \<Longrightarrow> 242 - 26 * s2 < 106" using bx eq unfolding a0_def by auto
  show "s2 \<le> al26" using i26 eq by simp
  show "al26 \<le> s2 + s4" using i26 eq by simp
qed


lemma firstMember_106:
  assumes "allocated106 s > 0" "staInfoIt2 s = b # bs"
  shows "firstMember s
           = Inr (s\<lparr>dataInfo := dataInfo s @ [b], staInfoIt2 := bs, size3 := size3 s - 1,
                    ruAssigned := ruAssigned s @ [(RU_106_TONE, 1)]\<rparr>)"
  using assms by (simp add: firstMember_def take2_def pushRu_def)

lemma fillOnoff_stop: "u \<le> 0 \<Longrightarrow> fillOnoff s u i = Inr (s, u, i)"
  by (subst fillOnoff.simps) simp

lemma fillHttp_stop: "u \<le> 0 \<Longrightarrow> fillHttp s u i = Inr (s, u, i)"
  by (subst fillHttp.simps) simp

lemma fillOnoff_two:
  assumes "staInfoIt1 s = o1 # o2 # os" "2 \<le> size2 s"
  shows "fillOnoff s 2 3
           = Inr (s\<lparr>dataInfo := dataInfo s @ [o1, o2], staInfoIt1 := os, size2 := size2 s - 2,
                    ruAssigned := ruAssigned s @ [(RU_26_TONE, 3), (RU_26_TONE, 4)]\<rparr>, 0, 5)"
proof -
  let ?s1 = "pushRu (type3, 3) (s\<lparr>dataInfo := dataInfo s @ [o1], staInfoIt1 := o2 # os,
                                   size2 := size2 s - 1\<rparr>)"
  let ?s2 = "pushRu (type3, 4) (?s1\<lparr>dataInfo := dataInfo ?s1 @ [o2], staInfoIt1 := os,
                                     size2 := size2 ?s1 - 1\<rparr>)"
  have "fillOnoff s 2 3 = fillOnoff ?s1 1 4"
    using assms by (subst fillOnoff.simps) (simp add: take1_def)
  also have "\<dots> = fillOnoff ?s2 0 5"
    using assms by (subst fillOnoff.simps) (simp add: take1_def pushRu_def)
  also have "\<dots> = Inr (?s2, 0, 5)" by (rule fillOnoff_stop) simp
  finally show ?thesis by (simp add: pushRu_def)
qed

lemma firstMember_52:
  assumes "\<not> allocated106 s > 0" "staInfoIt2 s = b # bs" "staInfoIt1 s = o1 # o2 # os"
    "2 \<le> size2 s"
  shows "firstMember s
           = Inr (s\<lparr>dataInfo := dataInfo s @ [b, o1, o2], staInfoIt2 := bs,
                    size3 := size3 s - 1, allocated52 := allocated52 s - 1,
                    staInfoIt1 := os, size2 := size2 s - 2,
                    ruAssigned := ruAssigned s
                       @ [(RU_52_TONE, 1), (RU_26_TONE, 3), (RU_26_TONE, 4)]\<rparr>)"
  using assms
  by (simp add: firstMember_def take2_def pushRu_def fillOnoff_two[of _ o1 o2 os]
        fillHttp_stop)

lemma parityFix_even: "even (allocated26 s) \<Longrightarrow> parityFix s = Inr s"
  by (simp add: parityFix_def even_iff_mod_2_eq_zero)

lemma parityFix_odd_onoff:
  assumes "odd (allocated26 s)" "staInfoIt1 s = c # it" "size2 s > 0"
  shows "parityFix s
           = Inr (s\<lparr>dataInfo := dataInfo s @ [c], staInfoIt1 := it, size2 := size2 s - 1,
                    allocated26 := allocated26 s - 1,
                    ruAssigned := ruAssigned s @ [(RU_26_TONE, 5)]\<rparr>)"
  using assms by (simp add: parityFix_def even_iff_mod_2_eq_zero take1_def pushRu_def)

lemma parityFix_odd_http:
  assumes "odd (allocated26 s)" "staInfoIt3 s = c # it" "\<not> size2 s > 0"
  shows "parityFix s
           = Inr (s\<lparr>dataInfo := dataInfo s @ [c], staInfoIt3 := it, size4 := size4 s - 1,
                    allocated26 := allocated26 s - 1,
                    ruAssigned := ruAssigned s @ [(RU_26_TONE, 5)]\<rparr>)"
  using assms by (simp add: parityFix_def even_iff_mod_2_eq_zero take3_def pushRu_def)

lemma parityStep_intro:
  assumes "size2 s = int (length (staInfoIt1 s))"
    and "odd (allocated26 s) \<Longrightarrow> staInfoIt1 s = [] \<Longrightarrow> staInfoIt3 s \<noteq> []"
  shows "parityStep s"
proof (cases "even (allocated26 s)")
  case True
  then show ?thesis by (simp add: parityStep_def parityFix_even)
next
  case False
  show ?thesis
  proof (cases "staInfoIt1 s")
    case Nil
    then obtain c it where c: "staInfoIt3 s = c # it"
      using assms(2) False by (cases "staInfoIt3 s") auto
    have n: "\<not> size2 s > 0" using assms(1) Nil by simp
    let ?s2 = "s\<lparr>dataInfo := dataInfo s @ [c], staInfoIt3 := it, size4 := size4 s - 1,
                    allocated26 := allocated26 s - 1,
                    ruAssigned := ruAssigned s @ [(RU_26_TONE, 5)]\<rparr>"
    have "parityFix s = Inr ?s2
            \<and> dataInfo ?s2 = dataInfo s @ [c]
            \<and> ruAssigned ?s2 = ruAssigned s @ [(RU_26_TONE, 5)]
            \<and> allocated26 ?s2 = allocated26 s - 1 \<and> even (allocated26 ?s2)
            \<and> staInfoIt2 ?s2 = staInfoIt2 s
            \<and> (if staInfoIt1 s \<noteq> []
                  then staInfoIt1 s = c # staInfoIt1 ?s2 \<and> staInfoIt3 ?s2 = staInfoIt3 s
                else staInfoIt3 s = c # staInfoIt3 ?s2 \<and> staInfoIt1 ?s2 = [])"
      using False Nil c parityFix_odd_http[OF False c n] by simp
    then show ?thesis unfolding parityStep_def using False by blast
  next
    case (Cons c it)
    have p: "size2 s > 0" using assms(1) Cons by simp
    let ?s2 = "s\<lparr>dataInfo := dataInfo s @ [c], staInfoIt1 := it, size2 := size2 s - 1,
                    allocated26 := allocated26 s - 1,
                    ruAssigned := ruAssigned s @ [(RU_26_TONE, 5)]\<rparr>"
    have "parityFix s = Inr ?s2
            \<and> dataInfo ?s2 = dataInfo s @ [c]
            \<and> ruAssigned ?s2 = ruAssigned s @ [(RU_26_TONE, 5)]
            \<and> allocated26 ?s2 = allocated26 s - 1 \<and> even (allocated26 ?s2)
            \<and> staInfoIt2 ?s2 = staInfoIt2 s
            \<and> (if staInfoIt1 s \<noteq> []
                  then staInfoIt1 s = c # staInfoIt1 ?s2 \<and> staInfoIt3 ?s2 = staInfoIt3 s
                else staInfoIt3 s = c # staInfoIt3 ?s2 \<and> staInfoIt1 ?s2 = [])"
      using False Cons parityFix_odd_onoff[OF False Cons p] by simp
    then show ?thesis unfolding parityStep_def using False by blast
  qed
qed

lemma first_member_then_parity:
  assumes "bulksend \<noteq> []"
  shows "\<exists>s1. firstMember (packingStart onoff bulksend http) = Inr s1 \<and> parityStep s1"
proof -
  obtain a al106 al52 al26 where r:
    "reserve (int (length onoff)) (int (length bulksend)) (int (length http)) = (a, al106, al52, al26)"
    by (cases "reserve (int (length onoff)) (int (length bulksend)) (int (length http))") auto
  note inv = reserve_inv[OF r of_nat_0_le_iff]
  define s0 where "s0 = packingStart onoff bulksend http"
  have s0: "allocated106 s0 = al106" "allocated26 s0 = al26" "size2 s0 = int (length onoff)"
    "staInfoIt1 s0 = onoff" "staInfoIt2 s0 = bulksend" "staInfoIt3 s0 = http"
    by (simp_all add: s0_def packingStart_def r)
  obtain b bs where b: "bulksend = b # bs" using assms by (cases bulksend) auto
  show ?thesis
  proof (cases "al106 > 0")
    case True
    let ?s1 = "s0\<lparr>dataInfo := dataInfo s0 @ [b], staInfoIt2 := bs, size3 := size3 s0 - 1,
                    ruAssigned := ruAssigned s0 @ [(RU_106_TONE, 1)]\<rparr>"
    have f: "firstMember s0 = Inr ?s1"
      using True s0 b by (intro firstMember_106) simp_all
    have "parityStep ?s1"
    proof (rule parityStep_intro)
      show "size2 ?s1 = int (length (staInfoIt1 ?s1))" using s0 by simp
      assume odd: "odd (allocated26 ?s1)" and e: "staInfoIt1 ?s1 = []"
      have "al26 \<le> int (length http)" using inv(5) e s0 by simp
      moreover have "al26 \<noteq> 0" using odd s0 by auto
      moreover have "0 \<le> al26" using inv(4) by simp
      ultimately show "staInfoIt3 ?s1 \<noteq> []" using s0 by auto
    qed
    then show ?thesis using f unfolding s0_def by blast
  next
    case False
    then have z: "al106 = 0" using inv(2) by auto
    have "242 - 26 * int (length onoff) < 106" using inv(3)[OF z] b by simp
    then have len: "6 \<le> length onoff" by linarith
    then obtain o1 o2 os where o: "onoff = o1 # o2 # os"
      by (cases onoff; cases "tl onoff") auto
    have los: "os \<noteq> []" using len o by auto
    let ?s1 = "s0\<lparr>dataInfo := dataInfo s0 @ [b, o1, o2], staInfoIt2 := bs,
                    size3 := size3 s0 - 1, allocated52 := allocated52 s0 - 1,
                    staInfoIt1 := os, size2 := size2 s0 - 2,
                    ruAssigned := ruAssigned s0
                       @ [(RU_52_TONE, 1), (RU_26_TONE, 3), (RU_26_TONE, 4)]\<rparr>"
    have f: "firstMember s0 = Inr ?s1"
      using False s0 b o by (intro firstMember_52) simp_all
    have "parityStep ?s1"
    proof (rule parityStep_intro)
      show "size2 ?s1 = int (length (staInfoIt1 ?s1))" using s0 o by simp
      assume "staInfoIt1 ?s1 = []"
      then show "staInfoIt3 ?s1 \<noteq> []" using los by simp
    qed
    then show ?thesis using f unfolding s0_def by blast
  qed
qed

lemma mixed_case:
  assumes "classify T batch = (onoff0, bulksend0, http0)"
    and "bulksend0 \<noteq> []"
    and "1 < length onoff0 + length bulksend0 + length http0"
    and "length onoff0 \<le> 7"
  shows "GetNumberAndTypeOfRus T bw n batch
           = mixedPacking (sort_class onoff0) (sort_class bulksend0) (sort_class http0)"
proof -
  have nd: "\<not> (int (length (sort_class bulksend0)) = 0
              \<or> int (length (sort_class onoff0)) + int (length (sort_class bulksend0))
                  + int (length (sort_class http0)) \<le> 1)"
    using assms(2,3) by (simp add: sort_class_length)
  have ov: "\<not> int (length (sort_class onoff0)) > 7" using assms(4) by (simp add: sort_class_length)
  show ?thesis
    unfolding GetNumberAndTypeOfRus_def assms(1) prod.case Let_def
    using nd ov by simp
qed


text \<open>
  C8. In the mixed case (the class \<^verbatim>\<open>bulksend\<close> is not empty, the three classes have
  more than one candidate together, and \<^verbatim>\<open>onoff\<close> has at most 7) the function is the
  packing of lines 699--821. The class whose members get 26 tones each first, the second
  that the classification looks up, is \<^verbatim>\<open>onoff\<close> (\<^verbatim>\<open>size2\<close>): the budget from which
  the further units are reserved is 242 minus 26 times its number, so the tones left
  and the tones of the units reserved beyond these add up to that budget. The assignment
  of the first member succeeds; if \<^verbatim>\<open>allocated26\<close> is even after it, nothing is done at
  lines 763--780; if it is odd, exactly one more candidate, the next of \<^verbatim>\<open>onoff\<close> if
  one is left and else the next of \<^verbatim>\<open>http\<close> (of which one is left then), is
  appended with the allocation entry of the 26-tone RU of index 5, and \<^verbatim>\<open>allocated26\<close>
  is one less, hence even.
\<close>

theorem mixed_parity_fix:
  assumes "classify T batch = (onoff0, bulksend0, http0)"
    and "bulksend0 \<noteq> []"
    and "1 < length onoff0 + length bulksend0 + length http0"
    and "length onoff0 \<le> 7"
  shows "GetNumberAndTypeOfRus T bw n batch
           = mixedPacking (sort_class onoff0) (sort_class bulksend0) (sort_class http0)
       \<and> (\<forall>a al106 al52 al26.
            reserve (int (length onoff0)) (int (length bulksend0)) (int (length http0))
              = (a, al106, al52, al26) \<longrightarrow>
            a + 106 * al106 + 52 * al52 + 26 * (al26 - int (length onoff0))
              = 242 - 26 * int (length onoff0))
       \<and> (\<exists>s1. firstMember (packingStart (sort_class onoff0) (sort_class bulksend0)
                                (sort_class http0)) = Inr s1
             \<and> (even (allocated26 s1) \<longrightarrow> parityFix s1 = Inr s1)
             \<and> (odd (allocated26 s1) \<longrightarrow>
                  (\<exists>c s2. parityFix s1 = Inr s2
                     \<and> dataInfo s2 = dataInfo s1 @ [c]
                     \<and> ruAssigned s2 = ruAssigned s1 @ [(RU_26_TONE, 5)]
                     \<and> allocated26 s2 = allocated26 s1 - 1 \<and> even (allocated26 s2)
                     \<and> staInfoIt2 s2 = staInfoIt2 s1
                     \<and> (if staInfoIt1 s1 \<noteq> []
                           then staInfoIt1 s1 = c # staInfoIt1 s2
                                \<and> staInfoIt3 s2 = staInfoIt3 s1
                         else staInfoIt3 s1 = c # staInfoIt3 s2 \<and> staInfoIt1 s2 = []))))"
proof (intro conjI)
  show "GetNumberAndTypeOfRus T bw n batch
           = mixedPacking (sort_class onoff0) (sort_class bulksend0) (sort_class http0)"
    using assms by (rule mixed_case)
  show "\<forall>a al106 al52 al26.
            reserve (int (length onoff0)) (int (length bulksend0)) (int (length http0))
              = (a, al106, al52, al26) \<longrightarrow>
            a + 106 * al106 + 52 * al52 + 26 * (al26 - int (length onoff0))
              = 242 - 26 * int (length onoff0)"
    using reserve_inv(1)[OF _ of_nat_0_le_iff] by blast
  have "sort_class bulksend0 \<noteq> []"
    using assms(2) sort_class_length[of bulksend0] by (metis length_0_conv)
  then obtain s1 where s1:
    "firstMember (packingStart (sort_class onoff0) (sort_class bulksend0) (sort_class http0))
       = Inr s1" "parityStep s1"
    using first_member_then_parity by blast
  show "\<exists>s1. firstMember (packingStart (sort_class onoff0) (sort_class bulksend0)
                                (sort_class http0)) = Inr s1
             \<and> (even (allocated26 s1) \<longrightarrow> parityFix s1 = Inr s1)
             \<and> (odd (allocated26 s1) \<longrightarrow>
                  (\<exists>c s2. parityFix s1 = Inr s2
                     \<and> dataInfo s2 = dataInfo s1 @ [c]
                     \<and> ruAssigned s2 = ruAssigned s1 @ [(RU_26_TONE, 5)]
                     \<and> allocated26 s2 = allocated26 s1 - 1 \<and> even (allocated26 s2)
                     \<and> staInfoIt2 s2 = staInfoIt2 s1
                     \<and> (if staInfoIt1 s1 \<noteq> []
                           then staInfoIt1 s1 = c # staInfoIt1 s2
                                \<and> staInfoIt3 s2 = staInfoIt3 s1
                         else staInfoIt3 s1 = c # staInfoIt3 s2 \<and> staInfoIt1 s2 = [])))"
    using s1 unfolding parityStep_def by (intro exI[of _ s1]) blast
qed

text \<open>One candidate of each of the classes \<^verbatim>\<open>bulksend\<close> and \<^verbatim>\<open>onoff\<close>.\<close>

theorem mixed_parity_fix_witness:
  "classify exTables [cand 1 100, cand 30 100] = ([cand 30 100], [cand 1 100], [])
   \<and> GetNumberAndTypeOfRus exTables 20 2 [cand 1 100, cand 30 100]
        = Inr ([(RU_106_TONE, 1), (RU_26_TONE, 5)], [cand 1 100, cand 30 100])
   \<and> reserve 1 1 0 = (110, 1, 0, 1)
   \<and> firstMember (packingStart (sort_class [cand 30 100]) (sort_class [cand 1 100])
                     (sort_class [])) = Inr exAfterFirst
   \<and> odd (allocated26 exAfterFirst)
   \<and> (\<exists>s2. parityFix exAfterFirst = Inr s2
          \<and> dataInfo s2 = [cand 1 100, cand 30 100]
          \<and> ruAssigned s2 = [(RU_106_TONE, 1), (RU_26_TONE, 5)]
          \<and> allocated26 s2 = 0)"
proof -
  have h1: "classify exTables [cand 1 100, cand 30 100] = ([cand 30 100], [cand 1 100], [])"
    by code_simp
  have h2: "[cand 1 100] \<noteq> []" by simp
  have h3: "1 < length [cand 30 100] + length [cand 1 100] + length ([] :: candidate list)"
    by simp
  have h4: "length [cand 30 100] \<le> 7" by simp
  note t = mixed_parity_fix[OF h1 h2 h3 h4, of 20 2]
  have f: "firstMember (packingStart (sort_class [cand 30 100]) (sort_class [cand 1 100])
                     (sort_class [])) = Inr exAfterFirst"
    by code_simp
  have o: "odd (allocated26 exAfterFirst)" by (simp add: exAfterFirst_def)
  have fields: "dataInfo exAfterFirst = [cand 1 100]"
    "ruAssigned exAfterFirst = [(RU_106_TONE, 1)]" "allocated26 exAfterFirst = 1"
    "staInfoIt1 exAfterFirst = [cand 30 100]"
    by (simp_all add: exAfterFirst_def)
  obtain c s2 where p: "parityFix exAfterFirst = Inr s2"
    "dataInfo s2 = dataInfo exAfterFirst @ [c]"
    "ruAssigned s2 = ruAssigned exAfterFirst @ [(RU_26_TONE, 5)]"
    "allocated26 s2 = allocated26 exAfterFirst - 1"
    "staInfoIt1 exAfterFirst = c # staInfoIt1 s2"
    using t f o fields(4) by auto
  have c: "c = cand 30 100" using p(5) fields(4) by simp
  have "\<exists>s2. parityFix exAfterFirst = Inr s2
          \<and> dataInfo s2 = [cand 1 100, cand 30 100]
          \<and> ruAssigned s2 = [(RU_106_TONE, 1), (RU_26_TONE, 5)]
          \<and> allocated26 s2 = 0"
    using p c fields by auto
  moreover have "GetNumberAndTypeOfRus exTables 20 2 [cand 1 100, cand 30 100]
        = Inr ([(RU_106_TONE, 1), (RU_26_TONE, 5)], [cand 1 100, cand 30 100])"
    by code_simp
  moreover have "reserve 1 1 0 = (110, 1, 0, 1)" by code_simp
  ultimately show ?thesis using h1 f o by simp
qed

section \<open>Properties of \<^verbatim>\<open>SelectTxFormat\<close>\<close>

subsection \<open>The scan of the TIDs\<close>

lemma scanTids_step_skip:
  "\<not> tentative E pa sta t \<Longrightarrow>
   scanTids E pa lim sta (t # tids) ruIt = scanTids E pa lim sta tids (tl ruIt)"
  by (auto simp: tentative_def split: option.splits)

lemma scanTids_step_end:
  "tentative E pa sta t \<Longrightarrow> scanTids E pa lim sta (t # tids) [] = Inl PastTheEnd"
  by (auto simp: tentative_def split: option.splits)

lemma scanTids_step_reject:
  "tentative E pa sta t \<Longrightarrow> \<not> withinLimits E t (snd sta) (fst ru) lim \<Longrightarrow>
   scanTids E pa lim sta (t # tids) (ru # rest) = scanTids E pa lim sta tids rest"
  by (auto simp: tentative_def split: option.splits)

lemma scanTids_past_the_end:
  "n < length tids \<Longrightarrow> length ruIt \<le> n \<Longrightarrow> tentative E pa sta (tids ! n) \<Longrightarrow>
   (\<forall>m < length ruIt. \<not> (tentative E pa sta (tids ! m)
        \<and> withinLimits E (tids ! m) (snd sta) (fst (ruIt ! m)) lim)) \<Longrightarrow>
   scanTids E pa lim sta tids ruIt = Inl PastTheEnd"
proof (induction tids arbitrary: n ruIt)
  case Nil
  then show ?case by simp
next
  case (Cons t tids)
  show ?case
  proof (cases ruIt)
    case Nil
    show ?thesis
    proof (cases "tentative E pa sta t")
      case True
      then show ?thesis using Nil scanTids_step_end by simp
    next
      case False
      then obtain n' where n: "n = Suc n'" using Cons.prems(3) by (cases n) auto
      have "scanTids E pa lim sta tids [] = Inl PastTheEnd"
        using Cons.prems n by (intro Cons.IH[of n']) simp_all
      then show ?thesis using False Nil scanTids_step_skip by simp
    qed
  next
    case (Cons ru rest)
    then obtain n' where n: "n = Suc n'" using Cons.prems(2) by (cases n) auto
    have no0: "\<not> (tentative E pa sta t \<and> withinLimits E t (snd sta) (fst ru) lim)"
      using Cons.prems(4)[rule_format, of 0] Cons by simp
    have shift: "\<forall>m < length rest. \<not> (tentative E pa sta (tids ! m)
        \<and> withinLimits E (tids ! m) (snd sta) (fst (rest ! m)) lim)"
    proof (intro allI impI)
      fix m assume "m < length rest"
      then show "\<not> (tentative E pa sta (tids ! m)
        \<and> withinLimits E (tids ! m) (snd sta) (fst (rest ! m)) lim)"
        using Cons.prems(4)[rule_format, of "Suc m"] Cons by simp
    qed
    have ih: "scanTids E pa lim sta tids rest = Inl PastTheEnd"
      using Cons.prems(1,2,3) n Cons shift by (intro Cons.IH[of n']) simp_all
    show ?thesis
    proof (cases "tentative E pa sta t")
      case True
      then show ?thesis using no0 ih Cons scanTids_step_reject by simp
    next
      case False
      then show ?thesis using ih Cons scanTids_step_skip by simp
    qed
  qed
qed


text \<open>
  C10. In the selection loop the iterator over the tentative RU types advances once for
  each TID examined, without a check against the length of the vector. For every station,
  if the tentative assignment is reached at a position of the TID order that is not
  below the number of entries (so the number of TIDs examined exceeds it), and no
  earlier TID has ended the scan by giving a candidate, then \<^verbatim>\<open>ruIt->first\<close> reads
  past the end of the vector: the scan of the station, and with it the selection loop
  at that station, is the error \<open>PastTheEnd\<close>.
\<close>

theorem tentative_ru_past_the_end:
  assumes "n < length (tidOrder currTid)"
    and "length ruTypeVec \<le> n"
    and "tentative E primaryAc sta (tidOrder currTid ! n)"
    and "\<forall>m < length ruTypeVec.
           \<not> (tentative E primaryAc sta (tidOrder currTid ! m)
              \<and> withinLimits E (tidOrder currTid ! m) (snd sta) (fst (ruTypeVec ! m)) txopLimit)"
  shows "scanTids E primaryAc txopLimit sta (tidOrder currTid) ruTypeVec = Inl PastTheEnd
       \<and> selectLoop E primaryAc txopLimit currTid ruTypeVec (sta # rest) st = Inl PastTheEnd"
  using scanTids_past_the_end[OF assms] by simp

text \<open>
  The branch is reached: with one station per transmission on 20 MHz the vector has
  one entry, and a station whose only frame is of the TID 1 is examined at the second
  position when the scheduler is entered with the TID 0.
\<close>

theorem tentative_ru_past_the_end_witness:
  "GetNumberAndTypeOfRus (rrTables exTid1Env) (channelWidth exTid1Env) (m_nStations exTid1Env) []
     = Inr ([(RU_242_TONE, 1)], [])
   \<and> scanTids exTid1Env 0 0 (1, 101) (tidOrder 0) [(RU_242_TONE, 1)] = Inl PastTheEnd
   \<and> SelectTxFormat exTid1Env 0 exFresh = Inl PastTheEnd"
proof -
  have h1: "1 < length (tidOrder 0)" by (simp add: tidOrder_def)
  have h2: "length [(RU_242_TONE, 1 :: nat)] \<le> 1" by simp
  have h3: "tentative exTid1Env 0 (1, 101) (tidOrder 0 ! 1)"
    by (simp add: tentative_def tidOrder_def exTid1Env_def acOf_def)
  have h4: "\<forall>m < length [(RU_242_TONE, 1 :: nat)].
           \<not> (tentative exTid1Env 0 (1, 101) (tidOrder 0 ! m)
              \<and> withinLimits exTid1Env (tidOrder 0 ! m) (snd (1 :: nat, 101 :: nat))
                   (fst ([(RU_242_TONE, 1 :: nat)] ! m)) 0)"
    by (simp add: tentative_def tidOrder_def exTid1Env_def)
  have "scanTids exTid1Env 0 0 (1, 101) (tidOrder 0) [(RU_242_TONE, 1)] = Inl PastTheEnd"
    using tentative_ru_past_the_end[OF h1 h2 h3 h4] by simp
  moreover have "GetNumberAndTypeOfRus (rrTables exTid1Env) (channelWidth exTid1Env)
                   (m_nStations exTid1Env) [] = Inr ([(RU_242_TONE, 1)], [])"
    by code_simp
  moreover have "SelectTxFormat exTid1Env 0 exFresh = Inl PastTheEnd"
    by code_simp
  ultimately show ?thesis by simp
qed

subsection \<open>The downlink path\<close>

lemma scanTids_none:
  "\<forall>t \<in> set tids. \<not> tentative E pa sta t \<Longrightarrow> scanTids E pa lim sta tids ruIt = Inr None"
  by (induction tids arbitrary: ruIt) (auto simp: tentative_def split: option.splits)

lemma selectLoop_none:
  "stas \<noteq> [] \<Longrightarrow> 1 \<le> m_nStations E \<Longrightarrow> m_staInfo st = [] \<Longrightarrow>
   \<forall>sta \<in> set stas. \<forall>t \<in> set (tidOrder currTid). \<not> tentative E pa sta t \<Longrightarrow>
   selectLoop E pa lim currTid ruTypeVec stas st = Inr (st, [])"
proof (induction stas arbitrary: st)
  case Nil
  then show ?case by simp
next
  case (Cons sta rest)
  have s: "scanTids E pa lim sta (tidOrder currTid) ruTypeVec = Inr None"
    using Cons.prems(4) by (intro scanTids_none) simp
  show ?case
  proof (cases "rest = []")
    case True
    then show ?thesis using s by simp
  next
    case False
    then have "selectLoop E pa lim currTid ruTypeVec rest st = Inr (st, [])"
      using Cons.prems by (intro Cons.IH) simp_all
    then show ?thesis using s False Cons.prems(2,3) by simp
  qed
qed

lemma stationsFrom_set: "set (stationsFrom start stas) = set stas"
  unfolding stationsFrom_def by (metis set_append sup_commute takeWhile_dropWhile_id)

lemma stationsFrom_Nil: "stationsFrom start stas = [] \<longleftrightarrow> stas = []"
  by (metis stationsFrom_set set_empty)

lemma selected_empty:
  "selected E round r = (fmt, st') \<Longrightarrow> m_staInfo st' = [] \<Longrightarrow> fmt = noReceivers E"
  by (cases r) (auto simp: selected_def split: if_splits)

lemma selected_not_UL:
  "selected E round r = (fmt, st') \<Longrightarrow>
     fmt \<noteq> UL_OFDMA \<and> (fmt = NON_OFDMA \<longrightarrow> \<not> m_forceDlOfdma E \<and> m_staInfo st' = [])"
  by (cases r) (auto simp: selected_def noReceivers_def split: if_splits)

lemma dlInit_staInfo: "m_staInfo (dlInit E currTid st ruTypeVec d) = []"
  by (simp add: dlInit_def)

lemma downlinkPath_Inr:
  assumes "downlinkPath E currTid st = Inr (fmt, st')"
  obtains ruTypeVec d where
    "GetNumberAndTypeOfRus (rrTables E) (channelWidth E) (m_nStations E) [] = Inr (ruTypeVec, d)"
    "(noReceivers E, dlInit E currTid st ruTypeVec d) = (fmt, st')
     \<or> (\<exists>r. selected E (dlRound E st) r = (fmt, st'))"
proof -
  from assms obtain x where x:
    "GetNumberAndTypeOfRus (rrTables E) (channelWidth E) (m_nStations E) [] = Inr x"
    unfolding downlinkPath_def by (auto simp: bindE_eq_Inr split: if_splits)
  obtain ruTypeVec d where xd: "x = (ruTypeVec, d)" by (cases x)
  have "(noReceivers E, dlInit E currTid st ruTypeVec d) = (fmt, st')
     \<or> (\<exists>r. selected E (dlRound E st) r = (fmt, st'))"
    using assms x xd unfolding downlinkPath_def
    by (auto simp: bindE_eq_Inr split: if_splits)
  then show ?thesis using that x xd by blast
qed

lemma downlinkPath_empty:
  "downlinkPath E currTid st = Inr (fmt, st') \<Longrightarrow> m_staInfo st' = [] \<Longrightarrow> fmt = noReceivers E"
  by (erule downlinkPath_Inr) (auto dest: selected_empty)

lemma downlinkPath_not_UL:
  "downlinkPath E currTid st = Inr (fmt, st') \<Longrightarrow>
     fmt \<noteq> UL_OFDMA \<and> (fmt = NON_OFDMA \<longrightarrow> \<not> m_forceDlOfdma E \<and> m_staInfo st' = [])"
proof (erule downlinkPath_Inr)
  fix ruTypeVec d
  assume "(noReceivers E, dlInit E currTid st ruTypeVec d) = (fmt, st')
     \<or> (\<exists>r. selected E (dlRound E st) r = (fmt, st'))"
  then show ?thesis
  proof
    assume "(noReceivers E, dlInit E currTid st ruTypeVec d) = (fmt, st')"
    then show ?thesis by (auto simp: noReceivers_def dlInit_staInfo split: if_splits)
  next
    assume "\<exists>r. selected E (dlRound E st) r = (fmt, st')"
    then show ?thesis using selected_not_UL by blast
  qed
qed

lemma uplinkPath_zero:
  assumes "m_enableUlOfdma E" "txFormat st = DL_OFDMA" "maxBufferSize E st = 0"
  shows "uplinkPath E st = Inr None \<or> uplinkPath E st = Inl Aborted"
    and "m_ulPsduSize E \<noteq> 0 \<Longrightarrow> ulMultiStaBlockAck E \<Longrightarrow> uplinkPath E st = Inr None"
  using assms by (simp_all add: uplinkPath_def)

lemma SelectTxFormat_downlink:
  "uplinkPath E st = Inr None \<Longrightarrow> SelectTxFormat E currTid st = downlinkPath E currTid st"
  by (simp add: SelectTxFormat_def)


text \<open>
  C2 does not hold as it is stated: with an estimate of zero the function goes on with
  the downlink path, which returns \<^verbatim>\<open>NON_OFDMA\<close> when it finds no receiver and
  \<^verbatim>\<open>ForceDlOfdma\<close> is not set. Here the only station of the previous downlink
  transmission reports the code 0 and no frame is queued for it.
\<close>

theorem uplink_zero_estimate_not_downlink:
  "m_enableUlOfdma exIdleEnv \<and> txFormat exAfterDl = DL_OFDMA
   \<and> maxBufferSize exIdleEnv exAfterDl = 0
   \<and> SelectTxFormat exIdleEnv 0 exAfterDl
       = Inr (NON_OFDMA,
              exAfterDl\<lparr>muUserInfos :=
                          [(1, \<lparr>primary80MHz = False, ruType = RU_52_TONE, index = 1\<rparr>)]\<rparr>)"
  by code_simp

text \<open>
  C2, amended. For every invocation of \<^verbatim>\<open>SelectTxFormat\<close> that takes the uplink path
  (\<^verbatim>\<open>EnableUlOfdma\<close> is set and the previous format is \<^verbatim>\<open>DL_OFDMA\<close>) with an estimate
  of zero, the format returned is never \<^verbatim>\<open>UL_OFDMA\<close>: it is the result of the downlink
  path, that is \<^verbatim>\<open>DL_OFDMA\<close>, or \<^verbatim>\<open>NON_OFDMA\<close> when \<^verbatim>\<open>ForceDlOfdma\<close> is not set and no
  receiver is selected. With a valid configuration of the uplink (a non-null
  \<^verbatim>\<open>UlPsduSize\<close>, multi-STA block acks) the function is the downlink path.
\<close>

theorem uplink_zero_estimate:
  assumes "m_enableUlOfdma E" "txFormat st = DL_OFDMA" "maxBufferSize E st = 0"
  shows "(\<forall>fmt st'. SelectTxFormat E currTid st = Inr (fmt, st') \<longrightarrow>
            downlinkPath E currTid st = Inr (fmt, st') \<and> fmt \<noteq> UL_OFDMA
            \<and> (fmt = NON_OFDMA \<longrightarrow> \<not> m_forceDlOfdma E \<and> m_staInfo st' = []))
       \<and> (m_ulPsduSize E \<noteq> 0 \<and> ulMultiStaBlockAck E \<longrightarrow>
            SelectTxFormat E currTid st = downlinkPath E currTid st)"
proof (intro conjI allI impI)
  fix fmt st'
  assume r: "SelectTxFormat E currTid st = Inr (fmt, st')"
  have "uplinkPath E st = Inr None"
    using uplinkPath_zero(1)[OF assms] r by (auto simp: SelectTxFormat_def)
  then show d: "downlinkPath E currTid st = Inr (fmt, st')"
    using r by (simp add: SelectTxFormat_downlink)
  show "fmt \<noteq> UL_OFDMA" using downlinkPath_not_UL[OF d] by simp
  show "\<not> m_forceDlOfdma E" if "fmt = NON_OFDMA" using downlinkPath_not_UL[OF d] that by simp
  show "m_staInfo st' = []" if "fmt = NON_OFDMA" using downlinkPath_not_UL[OF d] that by simp
next
  assume "m_ulPsduSize E \<noteq> 0 \<and> ulMultiStaBlockAck E"
  then show "SelectTxFormat E currTid st = downlinkPath E currTid st"
    using uplinkPath_zero(2)[OF assms] by (simp add: SelectTxFormat_downlink)
qed


theorem uplink_zero_estimate_witness:
  "m_enableUlOfdma exIdleEnv \<and> txFormat exAfterDl = DL_OFDMA
   \<and> maxBufferSize exIdleEnv exAfterDl = 0
   \<and> SelectTxFormat exIdleEnv 0 exAfterDl = downlinkPath exIdleEnv 0 exAfterDl
   \<and> (\<exists>st'. downlinkPath exIdleEnv 0 exAfterDl = Inr (NON_OFDMA, st') \<and> m_staInfo st' = [])"
proof -
  have h1: "m_enableUlOfdma exIdleEnv" by (simp add: exIdleEnv_def)
  have h2: "txFormat exAfterDl = DL_OFDMA" by (simp add: exAfterDl_def)
  have h3: "maxBufferSize exIdleEnv exAfterDl = 0" by code_simp
  have cfg: "m_ulPsduSize exIdleEnv \<noteq> 0 \<and> ulMultiStaBlockAck exIdleEnv"
    by (simp add: exIdleEnv_def)
  have r: "SelectTxFormat exIdleEnv 0 exAfterDl
       = Inr (NON_OFDMA,
              exAfterDl\<lparr>muUserInfos :=
                          [(1, \<lparr>primary80MHz = False, ruType = RU_52_TONE, index = 1\<rparr>)]\<rparr>)"
    by code_simp
  note t = uplink_zero_estimate[OF h1 h2 h3, of 0]
  have "SelectTxFormat exIdleEnv 0 exAfterDl = downlinkPath exIdleEnv 0 exAfterDl"
    using t cfg by blast
  moreover have "\<exists>st'. downlinkPath exIdleEnv 0 exAfterDl = Inr (NON_OFDMA, st')
                   \<and> m_staInfo st' = []"
    using t r by blast
  ultimately show ?thesis using h1 h2 h3 by simp
qed

subsection \<open>No receiver\<close>

text \<open>
  What lines 371--380 and 446--455 return. When the downlink path gets beyond its first
  steps (the map of the stations is not empty, the call of \<^verbatim>\<open>GetNumberAndTypeOfRus\<close>
  returns and \<^verbatim>\<open>NStations\<close> is at least 1), a time left that is negative, or the
  absence of any TID with a queued frame under a block ack agreement, gives \<^verbatim>\<open>NON_OFDMA\<close>
  when \<^verbatim>\<open>ForceDlOfdma\<close> is not set and \<^verbatim>\<open>DL_OFDMA\<close> when it is, with an empty set of
  receivers; and every return with an empty set of receivers has that format.
\<close>

lemma no_receivers_format:
  assumes "uplinkPath E st = Inr None"
    and "staList E \<noteq> []"
    and "GetNumberAndTypeOfRus (rrTables E) (channelWidth E) (m_nStations E) [] = Inr (ruTypeVec, d)"
    and "1 \<le> m_nStations E"
  shows "(txopLimitStrictlyPositive E \<and> isNegative E (txopRemaining E - dlResponse E) \<longrightarrow>
            (\<exists>st'. SelectTxFormat E currTid st = Inr (noReceivers E, st') \<and> m_staInfo st' = []))
       \<and> ((\<forall>sta \<in> set (staList E). \<forall>t \<in> set (tidOrder currTid).
              \<not> tentative E (tidToAc E currTid) sta t) \<longrightarrow>
            (\<exists>st'. SelectTxFormat E currTid st = Inr (noReceivers E, st') \<and> m_staInfo st' = []))
       \<and> (\<forall>fmt st'. SelectTxFormat E currTid st = Inr (fmt, st') \<and> m_staInfo st' = [] \<longrightarrow>
            fmt = noReceivers E)"
proof (intro conjI allI impI)
  have S: "SelectTxFormat E currTid st = downlinkPath E currTid st"
    using assms(1) by (rule SelectTxFormat_downlink)
  {
    assume "txopLimitStrictlyPositive E \<and> isNegative E (txopRemaining E - dlResponse E)"
    then have "downlinkPath E currTid st = Inr (noReceivers E, dlInit E currTid st ruTypeVec d)"
      using assms(2,3,4) by (simp add: downlinkPath_def dlTxopLimit_def)
    then show "\<exists>st'. SelectTxFormat E currTid st = Inr (noReceivers E, st') \<and> m_staInfo st' = []"
      using S dlInit_staInfo by auto
  }
  {
    assume none: "\<forall>sta \<in> set (staList E). \<forall>t \<in> set (tidOrder currTid).
              \<not> tentative E (tidToAc E currTid) sta t"
    let ?st1 = "dlInit E currTid st ruTypeVec d"
    have "selectLoop E (tidToAc E currTid) (dlTxopLimit E) currTid ruTypeVec (dlRound E st) ?st1
            = Inr (?st1, [])"
      using assms(2,4) none
      by (intro selectLoop_none) (simp_all add: dlRound_def stationsFrom_Nil stationsFrom_set dlInit_staInfo)
    then have "downlinkPath E currTid st = Inr (noReceivers E, ?st1)"
      using assms(2,3,4) by (simp add: downlinkPath_def selected_def dlInit_staInfo)
    then show "\<exists>st'. SelectTxFormat E currTid st = Inr (noReceivers E, st') \<and> m_staInfo st' = []"
      using S dlInit_staInfo by auto
  }
  {
    fix fmt st'
    assume "SelectTxFormat E currTid st = Inr (fmt, st') \<and> m_staInfo st' = []"
    then show "fmt = noReceivers E" using S downlinkPath_empty by auto
  }
qed

text \<open>
  C9 says that every invocation that reaches the downlink path with a batch that ends
  up empty, or with a negative time left after the response, returns \<^verbatim>\<open>NON_OFDMA\<close>, or
  \<^verbatim>\<open>DL_OFDMA\<close> with no receiver under \<^verbatim>\<open>ForceDlOfdma\<close>, and never an error. The code
  does not always get to the lines that return them.

  With \<^verbatim>\<open>NStations\<close> 4 on 20 MHz the vector of the RU types has four entries. Frames
  are queued for the only station on the TIDs 0 and 3, and none fits: no station gives a
  candidate. The loop of line 389 reaches the tentative assignment at its first, fourth
  and fifth TID, and at the fifth it reads the vector past its end (the read of C10),
  where the batch should be found empty. With \<^verbatim>\<open>NStations\<close> 9 the vector has nine
  entries and the same invocation returns \<^verbatim>\<open>NON_OFDMA\<close>.

  On 160 MHz \<^verbatim>\<open>GetNumberAndTypeOfRus\<close> throws at line 652, before the time left is
  looked at: with less time left than the response takes the invocation ends there,
  where on 20 MHz it returns \<^verbatim>\<open>NON_OFDMA\<close>.
\<close>

theorem empty_batch_not_returned:
  "uplinkPath exNoFitEnv exFresh = Inr None
   \<and> map (tentative exNoFitEnv (tidToAc exNoFitEnv 0) (1, 101)) (tidOrder 0)
       = [True, False, False, True, True, False, False, False, False]
   \<and> GetNumberAndTypeOfRus (rrTables exNoFitEnv) (channelWidth exNoFitEnv)
        (m_nStations exNoFitEnv) []
       = Inr (map (\<lambda>ruIndex. (RU_52_TONE, ruIndex)) [1..<5], [])
   \<and> SelectTxFormat exNoFitEnv 0 exFresh = Inl PastTheEnd
   \<and> SelectTxFormat (exNoFitEnv\<lparr>m_nStations := 9\<rparr>) 0 exFresh
       = Inr (NON_OFDMA,
              exFresh\<lparr>m_startStation := 1,
                      muUserInfos :=
                        [(1, \<lparr>primary80MHz = False, ruType = RU_26_TONE, index = 1\<rparr>)]\<rparr>)
   \<and> uplinkPath (exShortEnv\<lparr>channelWidth := 160\<rparr>) exFresh = Inr None
   \<and> txopLimitStrictlyPositive exShortEnv
   \<and> isNegative exShortEnv (txopRemaining exShortEnv - dlResponse exShortEnv)
   \<and> SelectTxFormat (exShortEnv\<lparr>channelWidth := 160\<rparr>) 0 exFresh = Inl OutOfRange
   \<and> SelectTxFormat exShortEnv 0 exFresh
       = Inr (NON_OFDMA,
              exFresh\<lparr>m_startStation := 1,
                      muUserInfos :=
                        [(1, \<lparr>primary80MHz = False, ruType = RU_52_TONE, index = 1\<rparr>)]\<rparr>)"
  by code_simp
section \<open>Properties of \<^verbatim>\<open>ComputeDlOfdmaInfo\<close>\<close>

subsection \<open>More allocation entries than stations\<close>

text \<open>
  C1 says that the allocation never has more entries than \<^verbatim>\<open>NStations\<close>. The overflow
  case does not look at the number of stations: with \<^verbatim>\<open>NStations\<close> 16 on 40 MHz and
  sixteen candidates, eight of the class \<^verbatim>\<open>onoff\<close> and eight of the class
  \<^verbatim>\<open>bulksend\<close>, \<^verbatim>\<open>SelectTxFormat\<close> returns \<^verbatim>\<open>DL_OFDMA\<close> and the call of
  \<^verbatim>\<open>GetNumberAndTypeOfRus\<close> in \<^verbatim>\<open>ComputeDlOfdmaInfo\<close> returns eighteen entries; the
  loop of lines 854--861 then runs out of candidates and the assertion of line 856
  fails. The mixed case does not look at the bandwidth either: for seven candidates of
  the class \<^verbatim>\<open>onoff\<close>, one of \<^verbatim>\<open>bulksend\<close> and two of \<^verbatim>\<open>http\<close> on 20 MHz it
  returns ten entries, with 26-tone RUs up to the index 11, where no RU type has more
  than nine RUs.
\<close>

theorem overflow_exceeds_nStations:
  "SelectTxFormat exWideEnv 0 exFresh = Inr (DL_OFDMA, exSixteen)
   \<and> m_nStations exWideEnv = 16 \<and> length (m_dataInfo exSixteen) = 16
   \<and> GetNumberAndTypeOfRus (rrTables exWideEnv) (channelWidth exWideEnv)
        (length (m_dataInfo exSixteen)) (m_dataInfo exSixteen)
       = Inr (map (\<lambda>ruIndex. (RU_26_TONE, ruIndex)) [1..<19], exOverflowBatch)
   \<and> length (map (\<lambda>ruIndex. (RU_26_TONE, ruIndex)) [1..<19]) = 18
   \<and> ComputeDlOfdmaInfo exWideEnv exSixteen = Inl AssertFailed
   \<and> GetNumberAndTypeOfRus exTables 20 10 exMixedBatch
       = Inr ((RU_52_TONE, 1) # map (\<lambda>ruIndex. (RU_26_TONE, ruIndex)) [3..<12],
              map (\<lambda>a. cand a 100) ([1..<2] @ [30..<37] @ [60..<62]))
   \<and> map (\<lambda>t. map_of (groups exTables) (20, t))
         [RU_26_TONE, RU_52_TONE, RU_106_TONE, RU_242_TONE, RU_484_TONE, RU_996_TONE,
          RU_2x996_TONE]
       = [Some 9, Some 4, Some 2, Some 1, None, None, None]"
  by code_simp

subsection \<open>The two halves of a 160 MHz channel\<close>




text \<open>
  For a map of the stations that is not empty the second half cannot be served. With two
  candidates on 160 MHz the first half is assigned; at the first step of the second half
  both iterators are at the end, and the assertion of line 905 fails. No invocation of
  \<^verbatim>\<open>SelectTxFormat\<close> leaves such a state on 160 MHz with the table of IEEE 802.11ax,
  which has no definition for 160 MHz: the call of \<^verbatim>\<open>GetNumberAndTypeOfRus\<close> at line
  336 ends at line 652, for every number of stations.
\<close>

lemma second_half_reads_past_the_end:
  "channelWidth ex160Env = 160 \<and> m_staInfo exTwo \<noteq> []
   \<and> GetNumberAndTypeOfRus (rrTables ex160Env) 160 (length (m_dataInfo exTwo)) (m_dataInfo exTwo)
       = Inr ([(RU_106_TONE, 1), (RU_26_TONE, 5)], [cand 1 100, cand 30 100])
   \<and> servedStations 2 [cand 1 100, cand 30 100] []
       = Inr [(1, \<lparr>aid = 1, tid = 0\<rparr>), (30, \<lparr>aid = 30, tid = 0\<rparr>)]
   \<and> assignHalf 2 True [(1, \<lparr>aid = 1, tid = 0\<rparr>), (30, \<lparr>aid = 30, tid = 0\<rparr>)]
        [(RU_106_TONE, 1), (RU_26_TONE, 5)] []
       = Inr ([], [], [(1, \<lparr>primary80MHz = True, ruType = RU_106_TONE, index = 1\<rparr>),
                       (30, \<lparr>primary80MHz = True, ruType = RU_26_TONE, index = 5\<rparr>)])
   \<and> assignHalf 2 False [] []
        [(1, \<lparr>primary80MHz = True, ruType = RU_106_TONE, index = 1\<rparr>),
         (30, \<lparr>primary80MHz = True, ruType = RU_26_TONE, index = 5\<rparr>)]
       = Inl AssertFailed
   \<and> ComputeDlOfdmaInfo ex160Env exTwo = Inl AssertFailed
   \<and> SelectTxFormat ex160Env 0 exFresh = Inl OutOfRange"
  by code_simp

lemma heRuSubcarrierGroups_160: "map_of heRuSubcarrierGroups (160, t) = None"
  by (simp add: heRuSubcarrierGroups_def)

lemma GetNumberAndTypeOfRus_160:
  assumes "groups T = heRuSubcarrierGroups"
  shows "\<exists>e. GetNumberAndTypeOfRus T 160 nStations [] = Inl e"
proof -
  have c: "classify T [] = ([], [], [])" by simp
  have s: "sort_class ([] :: candidate list) = []" by code_simp
  have u: "uniformEntries (groups T) 160 t = Inl OutOfRange" for t
    by (simp add: uniformEntries_def assms heRuSubcarrierGroups_160)
  show ?thesis
    unfolding GetNumberAndTypeOfRus_def c prod.case Let_def s
    by (cases "degenerateRuType (groups T) 160 nStations") (simp_all add: u)
qed

lemma downlinkPath_160:
  assumes "groups (rrTables E) = heRuSubcarrierGroups" "channelWidth E = 160"
  shows "\<exists>e. downlinkPath E currTid st = Inl e"
proof -
  obtain e where "GetNumberAndTypeOfRus (rrTables E) 160 (m_nStations E) [] = Inl e"
    using GetNumberAndTypeOfRus_160[OF assms(1)] by blast
  then show ?thesis by (simp add: downlinkPath_def assms(2))
qed

lemma SelectTxFormat_160:
  assumes "groups (rrTables E) = heRuSubcarrierGroups" "channelWidth E = 160"
    and "SelectTxFormat E currTid st = Inr (fmt, st')" and "m_staInfo st = []"
  shows "m_staInfo st' = []"
proof -
  obtain e where d: "downlinkPath E currTid st = Inl e"
    using downlinkPath_160[OF assms(1,2)] by blast
  have "uplinkPath E st = Inr (Some (fmt, st'))"
    using assms(3) d unfolding SelectTxFormat_def
    by (cases "uplinkPath E st") (auto split: option.splits)
  then show ?thesis using assms(4)
    unfolding uplinkPath_def Let_def by (auto split: if_splits)
qed


end
